theory Spec2Isabelle
  imports Complex_Main
begin

section \<open>JavaScript values\<close>

text \<open>
  A JavaScript number is an IEEE 754 double. A finite double is represented by the
  rational it denotes (the two zeros are one value) and the three non-finite values
  are kept apart. The sum, difference or product of two finite doubles is the exact
  result rounded to the nearest double, ties to the even mantissa: \<open>fl\<close> below.
\<close>

datatype jsnum = Fin rat | PosInf | NegInf | NaN

text \<open>A JSON value as \<open>express.json()\<close> and \<open>JSON.parse\<close> deliver it.\<close>

datatype json =
    JNull
  | JBool bool
  | JNum jsnum
  | JStr string
  | JArr "json list"
  | JObj "(string \<times> json) list"

text \<open>
  A property of a parsed body is a \<open>json option\<close>: \<open>None\<close> is \<open>undefined\<close>
  (the property is absent).
\<close>

text \<open>\<open>!v\<close> is \<open>\<not> truthy v\<close>.\<close>

fun truthy :: "json option \<Rightarrow> bool" where
  "truthy None = False"
| "truthy (Some JNull) = False"
| "truthy (Some (JBool b)) = b"
| "truthy (Some (JNum (Fin r))) = (r \<noteq> 0)"
| "truthy (Some (JNum NaN)) = False"
| "truthy (Some (JNum PosInf)) = True"
| "truthy (Some (JNum NegInf)) = True"
| "truthy (Some (JStr s)) = (s \<noteq> [])"
| "truthy (Some (JArr xs)) = True"
| "truthy (Some (JObj kvs)) = True"

text \<open>\<open>Number.isFinite\<close> does not coerce: it is false on everything but a finite number.\<close>

fun Number_isFinite :: "json option \<Rightarrow> bool" where
  "Number_isFinite (Some (JNum (Fin r))) = True"
| "Number_isFinite v = False"

fun isFinite :: "jsnum \<Rightarrow> bool" where
  "isFinite (Fin r) = True"
| "isFinite n = False"

text \<open>
  The number held by a value that has passed \<open>Number.isFinite\<close>. The second
  equation is never reached behind that guard.
\<close>

fun the_number :: "json option \<Rightarrow> rat" where
  "the_number (Some (JNum (Fin r))) = r"
| "the_number v = 0"

text \<open>\<open>Array.isArray\<close>.\<close>

fun Array_isArray :: "json option \<Rightarrow> bool" where
  "Array_isArray (Some (JArr xs)) = True"
| "Array_isArray v = False"

fun array_elems :: "json option \<Rightarrow> json list" where
  "array_elems (Some (JArr xs)) = xs"
| "array_elems v = []"

section \<open>Double arithmetic\<close>

text \<open>
  Rounding a positive rational \<open>x\<close> to a double. The exponent of the last mantissa
  bit is the least \<open>q\<close> from \<open>-1074\<close> (the subnormal doubles) on with
  \<open>x < 2^53 * 2^q\<close>; \<open>x / 2^q\<close> is rounded to an integer, a tie to the even one;
  from \<open>2^1024 - 2^970\<close> on, half a unit above the largest double, the result is
  \<open>Infinity\<close>.
\<close>

function ulp_exponent :: "rat \<Rightarrow> int \<Rightarrow> int" where
  "ulp_exponent x q = (if x < 2 ^ 53 * 2 powi q then q else ulp_exponent x (q + 1))"
  by pat_completeness auto
termination
proof (relation "measure (\<lambda>(x, q). nat (\<lceil>x\<rceil> - q))")
  show "wf (measure (\<lambda>(x, q). nat (\<lceil>x\<rceil> - q)))"
    by simp
next
  fix x :: rat and q :: int
  assume big: "\<not> x < 2 ^ 53 * 2 powi q"
  have pos: "(0::rat) < 2 ^ 53 * 2 powi q"
    by simp
  have "q < \<lceil>x\<rceil>"
  proof (cases "q < 0")
    case True
    from big pos have "0 < x" by linarith
    then have "0 < \<lceil>x\<rceil>" by simp
    with True show ?thesis by linarith
  next
    case False
    then have "of_int q < (2::rat) ^ nat q"
      by (metis of_int_of_nat_eq of_nat_less_two_power int_nat_eq not_less)
    also have "\<dots> \<le> 2 ^ 53 * 2 ^ nat q"
      by simp
    also have "\<dots> = 2 ^ 53 * 2 powi q"
      using False by (simp add: power_int_def)
    also have "\<dots> \<le> x"
      using big by simp
    finally show ?thesis
      by (simp add: less_ceiling_iff)
  qed
  then show "((x, q + 1), (x, q)) \<in> measure (\<lambda>(x, q). nat (\<lceil>x\<rceil> - q))"
    by simp
qed

declare ulp_exponent.simps [simp del]

definition round_half_even :: "rat \<Rightarrow> int" where
  "round_half_even y =
     (let f = \<lfloor>y\<rfloor>; d = y - of_int f
      in if d < 1 / 2 then f
         else if 1 / 2 < d then f + 1
         else if even f then f else f + 1)"

definition fl_pos :: "rat \<Rightarrow> jsnum" where
  "fl_pos x =
     (if 2 ^ 1024 - 2 ^ 970 \<le> x then PosInf
      else let q = ulp_exponent x (- 1074)
           in Fin (of_int (round_half_even (x / 2 powi q)) * 2 powi q))"

fun js_negate :: "jsnum \<Rightarrow> jsnum" where
  "js_negate (Fin r) = Fin (- r)"
| "js_negate PosInf = NegInf"
| "js_negate NegInf = PosInf"
| "js_negate NaN = NaN"

definition fl :: "rat \<Rightarrow> jsnum" where
  "fl x = (if x = 0 then Fin 0 else if 0 < x then fl_pos x else js_negate (fl_pos (- x)))"

text \<open>\<open>a + b\<close> and \<open>a * b\<close> of two finite numbers.\<close>

definition js_add :: "rat \<Rightarrow> rat \<Rightarrow> jsnum" where
  "js_add a b = fl (a + b)"

definition js_times :: "rat \<Rightarrow> rat \<Rightarrow> jsnum" where
  "js_times a b = fl (a * b)"

text \<open>\<open>s + a\<close> of any two numbers, as in the sum of the line amounts.\<close>

fun js_plus :: "jsnum \<Rightarrow> jsnum \<Rightarrow> jsnum" where
  "js_plus (Fin a) (Fin b) = fl (a + b)"
| "js_plus NaN y = NaN"
| "js_plus x NaN = NaN"
| "js_plus PosInf NegInf = NaN"
| "js_plus NegInf PosInf = NaN"
| "js_plus PosInf y = PosInf"
| "js_plus x PosInf = PosInf"
| "js_plus NegInf y = NegInf"
| "js_plus x NegInf = NegInf"

text \<open>\<open>current - qty\<close> and \<open>Math.max(0, x)\<close> on numbers, \<open>qty\<close> finite.\<close>

fun js_minus :: "jsnum \<Rightarrow> rat \<Rightarrow> jsnum" where
  "js_minus (Fin c) q = fl (c - q)"
| "js_minus PosInf q = PosInf"
| "js_minus NegInf q = NegInf"
| "js_minus NaN q = NaN"

fun Math_max0 :: "jsnum \<Rightarrow> jsnum" where
  "Math_max0 (Fin r) = Fin (max 0 r)"
| "Math_max0 PosInf = PosInf"
| "Math_max0 NegInf = Fin 0"
| "Math_max0 NaN = NaN"

text \<open>\<open>current < qty\<close> with \<open>qty\<close> finite; a comparison with \<open>NaN\<close> is false.\<close>

fun js_less :: "jsnum \<Rightarrow> rat \<Rightarrow> bool" where
  "js_less (Fin c) q = (c < q)"
| "js_less PosInf q = False"
| "js_less NegInf q = True"
| "js_less NaN q = False"

text \<open>\<open>sum > available\<close> with \<open>available\<close> finite.\<close>

fun js_greater :: "jsnum \<Rightarrow> rat \<Rightarrow> bool" where
  "js_greater (Fin c) q = (q < c)"
| "js_greater PosInf q = True"
| "js_greater NegInf q = False"
| "js_greater NaN q = False"

text \<open>
  The rational of a number known to be finite. The second equation is never
  reached where \<open>the_finite\<close> is used: see \<open>addToCart_with\<close>.
\<close>

fun the_finite :: "jsnum \<Rightarrow> rat" where
  "the_finite (Fin r) = r"
| "the_finite n = 0"

section \<open>The data file\<close>

text \<open>
  \<open>data.json\<close> is an array of product records. A record is represented by the
  fields the backend reads. The value of a numeric field is a scalar (a number, a
  string, a boolean, \<open>null\<close>) or absent; it is represented by whether it is a
  JSON number and by the number the code's own coercion makes of it:
  \<open>Number(p.product_id)\<close> for \<open>product_id\<close>, \<open>Number(p.shelf_life_count ?? 0)\<close>
  for \<open>shelf_life_count\<close> (the stock), and for \<open>product_price\<close> \<open>parseFloat\<close> of a
  string and \<open>Number(p.product_price ?? 0)\<close> of any other value. A JSON number can
  be non-finite: \<open>JSON.parse\<close> reads \<open>1e999\<close> as \<open>Infinity\<close>, and the deduction
  can store any number. \<open>is_active\<close> is the flag the kiosk reads to grey a product
  out. The file is taken to be readable and to hold an array of objects: a failed
  read or parse, which the handlers answer with status 500, is not part of the model.
\<close>

datatype raw_value = JsonNumber jsnum | NotNumber jsnum

fun coerced :: "raw_value \<Rightarrow> jsnum" where
  "coerced (JsonNumber n) = n"
| "coerced (NotNumber n) = n"

record raw_product =
  product_id :: raw_value
  product_name :: string
  product_price :: raw_value
  shelf_life_count :: raw_value
  is_active :: bool

text \<open>
  \<open>JSON.stringify\<close> writes a finite number as it is and a non-finite number as
  \<open>null\<close>, which each of the three coercions reads as 0; every other scalar is
  written as it is. \<open>written r\<close> is the record a later read of the file delivers
  for the record \<open>r\<close> held in memory when the file was written.
\<close>

fun as_written :: "jsnum \<Rightarrow> jsnum" where
  "as_written (Fin r) = Fin r"
| "as_written n = Fin 0"

fun rewritten :: "raw_value \<Rightarrow> raw_value" where
  "rewritten (JsonNumber (Fin r)) = JsonNumber (Fin r)"
| "rewritten (JsonNumber n) = NotNumber (Fin 0)"
| "rewritten (NotNumber n) = NotNumber n"

definition written :: "raw_product \<Rightarrow> raw_product" where
  "written r =
     r\<lparr> product_id := rewritten (product_id r),
       product_price := rewritten (product_price r),
       shelf_life_count := rewritten (shelf_life_count r) \<rparr>"

section \<open>The cart\<close>

text \<open>
  \<open>cart.items\<close> is a \<open>Map<number, number>\<close>, which iterates in insertion order:
  an association list from product id to quantity. \<open>Map_get\<close> is \<open>get\<close>,
  \<open>Map_set\<close> is \<open>set\<close> (an existing key keeps its place, a new one goes last).
\<close>

type_synonym cart_items = "(rat \<times> rat) list"

fun Map_get :: "('k \<times> 'v) list \<Rightarrow> 'k \<Rightarrow> 'v option" where
  "Map_get [] k = None"
| "Map_get ((k', v) # kvs) k = (if k' = k then Some v else Map_get kvs k)"

fun Map_set :: "'k \<Rightarrow> 'v \<Rightarrow> ('k \<times> 'v) list \<Rightarrow> ('k \<times> 'v) list" where
  "Map_set k v [] = [(k, v)]"
| "Map_set k v ((k', v') # kvs) =
     (if k' = k then (k, v) # kvs else (k', v') # Map_set k v kvs)"

text \<open>\<open>cart.items.get(productId) ?? 0\<close>.\<close>

definition inCart_of :: "cart_items \<Rightarrow> rat \<Rightarrow> rat" where
  "inCart_of items pid = (case Map_get items pid of Some n \<Rightarrow> n | None \<Rightarrow> 0)"

text \<open>\<open>xs.findIndex(P)\<close>; \<open>None\<close> is the result \<open>-1\<close>.\<close>

fun findIndex :: "('a \<Rightarrow> bool) \<Rightarrow> 'a list \<Rightarrow> nat option" where
  "findIndex P [] = None"
| "findIndex P (x # xs) =
     (if P x then Some 0 else map_option Suc (findIndex P xs))"

text \<open>\<open>xs.find(P)\<close>; \<open>None\<close> is \<open>undefined\<close>.\<close>

fun find_first :: "('a \<Rightarrow> bool) \<Rightarrow> 'a list \<Rightarrow> 'a option" where
  "find_first P [] = None"
| "find_first P (x # xs) = (if P x then Some x else find_first P xs)"

section \<open>The catalogue cache (jsonData.ts)\<close>

record json_product =
  jp_id :: jsnum
  jp_name :: string
  jp_price :: rat

definition toJsonProduct :: "raw_product \<Rightarrow> json_product" where
  "toJsonProduct raw =
     \<lparr> jp_id = coerced (product_id raw),
       jp_name = product_name raw,
       jp_price = (case coerced (product_price raw) of Fin r \<Rightarrow> r | _ \<Rightarrow> 0) \<rparr>"

definition CACHE_TTL_MS :: int where
  "CACHE_TTL_MS = 60 * 1000"

section \<open>The link to the vend controller (websocket/vmc.ts)\<close>

datatype ready_state = CONNECTING | OPEN | CLOSING | CLOSED

text \<open>
  The effects a request handler has on the world outside its own variables, in the
  order in which it performs them. \<open>EvSendToVMC items sent\<close> is a call of
  \<open>sendToVMC\<close> with the vend message for \<open>items\<close> and what it returned.
\<close>

datatype event =
    EvWriteFile
  | EvInvalidateCache
  | EvClearCart
  | EvSendToVMC "rat list" bool
  | EvNewSocket
  | EvSetTimeout "rat list"

section \<open>The backend state\<close>

record backend =
  cart :: cart_items
  dataFile :: "raw_product list"
  cachedProducts :: "json_product list option"
  lastLoaded :: int
  vmcClient :: "ready_state option"
  delivered :: "rat list list"
  timers :: "rat list list"
  trace :: "event list"

text \<open>
  \<open>vmcClient\<close> is the socket's \<open>readyState\<close>, \<open>None\<close> when the variable is null;
  \<open>delivered\<close> are the item lists of the vend messages handed to an open socket;
  \<open>timers\<close> are the vend messages whose re-send \<open>setTimeout\<close> has scheduled.
\<close>

definition connectToVMC :: "backend \<Rightarrow> backend" where
  "connectToVMC s =
     (if vmcClient s = Some OPEN then s
      else s\<lparr> vmcClient := Some CONNECTING, trace := trace s @ [EvNewSocket] \<rparr>)"

definition sendToVMC :: "rat list \<Rightarrow> backend \<Rightarrow> bool \<times> backend" where
  "sendToVMC vendItems s =
     (if vmcClient s = Some OPEN
      then (True, s\<lparr> delivered := delivered s @ [vendItems],
                     trace := trace s @ [EvSendToVMC vendItems True] \<rparr>)
      else (False, connectToVMC (s\<lparr> trace := trace s @ [EvSendToVMC vendItems False] \<rparr>)))"

definition invalidateJsonCache :: "backend \<Rightarrow> backend" where
  "invalidateJsonCache s =
     s\<lparr> cachedProducts := None, lastLoaded := 0, trace := trace s @ [EvInvalidateCache] \<rparr>"

text \<open>\<open>loadProducts()\<close> at clock reading \<open>now\<close> (\<open>force\<close> is never passed).\<close>

definition loadProducts :: "int \<Rightarrow> backend \<Rightarrow> json_product list \<times> backend" where
  "loadProducts now s =
     (case cachedProducts s of
        Some ps \<Rightarrow>
          if now - lastLoaded s < CACHE_TTL_MS then (ps, s)
          else (let ps' = map toJsonProduct (dataFile s)
                in (ps', s\<lparr> cachedProducts := Some ps', lastLoaded := now \<rparr>))
      | None \<Rightarrow>
          (let ps' = map toJsonProduct (dataFile s)
           in (ps', s\<lparr> cachedProducts := Some ps', lastLoaded := now \<rparr>)))"

section \<open>Responses\<close>

record order_line =
  ol_productId :: rat
  ol_quantity :: rat
  ol_name :: string
  ol_price :: rat
  ol_amount :: jsnum

datatype response =
    InvalidRequest
  | ProductNotFound rat
  | InvalidStock rat
  | InsufficientStockAdd rat jsnum rat rat
  | CartSnapshot cart_items
  | Cleared
  | Order string "order_line list" jsnum
  | InsufficientStock rat jsnum rat
  | Confirmed cart_items bool nat
  | ServerError

text \<open>
  \<open>InvalidRequest\<close> is status 400 with \<open>error: 'Invalid productId or quantity'\<close>;
  \<open>ProductNotFound p\<close> is \<open>error: 'Product p not found'\<close> (404 from \<open>addToCart\<close>,
  400 from \<open>confirmCheckout\<close>); \<open>InvalidStock p\<close> is 400 \<open>'Invalid stock for p'\<close>;
  \<open>InsufficientStockAdd p available inCart requested\<close> is the 400 body of
  \<open>addToCart\<close> with \<open>error: 'INSUFFICIENT_STOCK'\<close>;
  \<open>InsufficientStock p available requested\<close> is the 400 body of \<open>confirmCheckout\<close>
  with \<open>error: 'Insufficient stock for p'\<close>;
  \<open>CartSnapshot\<close>, \<open>Cleared\<close>, \<open>Order orderId items total\<close> and
  \<open>Confirmed checkedOut sent n\<close> are the 200 bodies; \<open>ServerError\<close> is the 500 of a
  \<open>catch\<close> block.
\<close>

section \<open>addToCart\<close>

record add_body =
  productId :: "json option"
  quantity :: "json option"

text \<open>
  The handler suspends once, in \<open>await fs.readFile\<close>. \<open>addToCart_with data\<close> is
  the handler where the read delivers \<open>data\<close> and the rest runs on the state \<open>s\<close>
  found when the handler resumes; \<open>addToCart\<close> is the handler when no other handler
  runs during the read. The request body is \<open>None\<close> when \<open>req.body\<close> is
  \<open>undefined\<close>: the destructuring then throws and the \<open>catch\<close> answers 500.

  The sum that is stored is finite: it is not above a finite stock, and it is neither
  \<open>-Infinity\<close> nor \<open>NaN\<close> since the quantity is positive and the cart holds
  non-negative quantities (\<open>addToCart_sum_finite\<close> below).
\<close>

definition addToCart_with ::
    "raw_product list \<Rightarrow> add_body option \<Rightarrow> backend \<Rightarrow> response \<times> backend" where
  "addToCart_with data req_body s =
     (case req_body of
        None \<Rightarrow> (ServerError, s)
      | Some body \<Rightarrow>
          if \<not> truthy (productId body) \<or> \<not> Number_isFinite (productId body) \<or>
             \<not> truthy (quantity body) \<or> \<not> Number_isFinite (quantity body) \<or>
             the_number (quantity body) \<le> 0
          then (InvalidRequest, s)
          else
            let pid = the_number (productId body);
                qty = the_number (quantity body)
            in case findIndex (\<lambda>p. coerced (product_id p) = Fin pid) data of
                 None \<Rightarrow> (ProductNotFound pid, s)
               | Some idx \<Rightarrow>
                   (case coerced (shelf_life_count (data ! idx)) of
                      Fin available \<Rightarrow>
                        let inCart = inCart_of (cart s) pid
                        in if js_greater (js_add inCart qty) available
                           then (InsufficientStockAdd pid (Fin available) inCart qty, s)
                           else
                             let s' = s\<lparr> cart := Map_set pid (the_finite (js_add inCart qty))
                                                   (cart s) \<rparr>
                             in (CartSnapshot (cart s'), s')
                    | _ \<Rightarrow> (InvalidStock pid, s)))"

definition addToCart :: "add_body option \<Rightarrow> backend \<Rightarrow> response \<times> backend" where
  "addToCart req_body s = addToCart_with (dataFile s) req_body s"

definition clearCart :: "backend \<Rightarrow> response \<times> backend" where
  "clearCart s = (Cleared, s\<lparr> cart := [], trace := trace s @ [EvClearCart] \<rparr>)"

definition getCart :: "backend \<Rightarrow> response \<times> backend" where
  "getCart s = (CartSnapshot (cart s), s)"

section \<open>prepareCheckout\<close>

text \<open>
  The decimal rendering of a clock reading in the template literal
  \<open>`order_${Date.now()}`\<close>.
\<close>

definition digit_char :: "nat \<Rightarrow> char" where
  "digit_char d = ''0123456789'' ! d"

fun string_of_nat :: "nat \<Rightarrow> string" where
  "string_of_nat n =
     (if n < 10 then [digit_char n]
      else string_of_nat (n div 10) @ [digit_char (n mod 10)])"

declare string_of_nat.simps [simp del]

definition string_of_int :: "int \<Rightarrow> string" where
  "string_of_int i =
     (if i < 0 then CHR ''-'' # string_of_nat (nat (- i)) else string_of_nat (nat i))"

definition order_line_of :: "json_product list \<Rightarrow> rat \<times> rat \<Rightarrow> order_line" where
  "order_line_of products e =
     (case e of (pid, qty) \<Rightarrow>
        let p = find_first (\<lambda>pp. jp_id pp = Fin pid) products;
            price = (case p of Some pp \<Rightarrow> jp_price pp | None \<Rightarrow> 0)
        in \<lparr> ol_productId = pid,
             ol_quantity = qty,
             ol_name = (case p of Some pp \<Rightarrow> jp_name pp | None \<Rightarrow> []),
             ol_price = price,
             ol_amount = js_times price qty \<rparr>)"

text \<open>
  \<open>prepareCheckout\<close> reads the clock twice: \<open>t_load\<close> inside \<open>loadProducts\<close> and
  \<open>t_id\<close> for the order id.
\<close>

definition prepareCheckout :: "int \<Rightarrow> int \<Rightarrow> backend \<Rightarrow> response \<times> backend" where
  "prepareCheckout t_load t_id s =
     (case loadProducts t_load s of (products, s') \<Rightarrow>
        let items = map (order_line_of products) (cart s');
            total = foldl (\<lambda>acc it. js_plus acc (ol_amount it)) (Fin 0) items;
            orderId = ''order_'' @ string_of_int t_id
        in (Order orderId items total, s'))"

section \<open>confirmCheckout\<close>

text \<open>
  \<open>idToIndex\<close>: the records in file order, each finite id set to its index, so that
  a later record with the same id replaces an earlier one.
\<close>

fun build_index :: "nat \<Rightarrow> raw_product list \<Rightarrow> (rat \<times> nat) list \<Rightarrow> (rat \<times> nat) list" where
  "build_index idx [] m = m"
| "build_index idx (p # ps) m =
     build_index (Suc idx) ps
       (case coerced (product_id p) of Fin idNum \<Rightarrow> Map_set idNum idx m | _ \<Rightarrow> m)"

definition idToIndex :: "raw_product list \<Rightarrow> (rat \<times> nat) list" where
  "idToIndex data = build_index 0 data []"

text \<open>The validation loop; \<open>None\<close> when it runs to its end without returning.\<close>

fun validate :: "(rat \<times> nat) list \<Rightarrow> raw_product list \<Rightarrow> cart_items \<Rightarrow> response option" where
  "validate ix data [] = None"
| "validate ix data ((pid, qty) # rest) =
     (case Map_get ix pid of
        None \<Rightarrow> Some (ProductNotFound pid)
      | Some idx \<Rightarrow>
          let current = coerced (shelf_life_count (data ! idx))
          in if \<not> isFinite current \<or> js_less current qty
             then Some (InsufficientStock pid current qty)
             else validate ix data rest)"

text \<open>
  The deduction loop, mutating \<open>data\<close> in place. \<open>None\<close> is the \<open>TypeError\<close> of
  reading a property of \<open>data[undefined]\<close>, which the handler's \<open>catch\<close> turns
  into the 500 response.
\<close>

fun deduct :: "(rat \<times> nat) list \<Rightarrow> cart_items \<Rightarrow> raw_product list \<Rightarrow> raw_product list option" where
  "deduct ix [] data = Some data"
| "deduct ix ((pid, qty) # rest) data =
     (case Map_get ix pid of
        None \<Rightarrow> None
      | Some idx \<Rightarrow>
          let item = data ! idx;
              current = coerced (shelf_life_count item)
          in deduct ix rest
               (data[idx := item\<lparr> shelf_life_count :=
                                   JsonNumber (Math_max0 (js_minus current qty)) \<rparr>]))"

text \<open>
  \<open>for (let i = 0; i < qty; i++) vendItems.push(productId)\<close>. The counter is taken
  exact and the array unbounded, as they are for the numbers of units a machine
  holds (below \<open>2^32\<close>, the longest array).
\<close>

function push_units :: "nat \<Rightarrow> rat \<Rightarrow> rat \<Rightarrow> rat list \<Rightarrow> rat list" where
  "push_units i qty pid vendItems =
     (if of_nat i < qty then push_units (Suc i) qty pid (vendItems @ [pid]) else vendItems)"
  by pat_completeness auto
termination
proof (relation "measure (\<lambda>(i, qty, pid, vendItems). nat \<lceil>qty\<rceil> - i)")
  show "wf (measure (\<lambda>(i, qty, pid, vendItems). nat \<lceil>qty\<rceil> - i))"
    by simp
next
  fix i :: nat and qty pid :: rat and vendItems :: "rat list"
  assume lt: "of_nat i < qty"
  have "of_int (int i) < qty"
    using lt by simp
  then have "int i < \<lceil>qty\<rceil>"
    by (simp add: less_ceiling_iff)
  then show "((Suc i, qty, pid, vendItems @ [pid]), (i, qty, pid, vendItems))
      \<in> measure (\<lambda>(i, qty, pid, vendItems). nat \<lceil>qty\<rceil> - i)"
    by simp
qed

declare push_units.simps [simp del]

fun expand_cart :: "cart_items \<Rightarrow> rat list \<Rightarrow> rat list" where
  "expand_cart [] vendItems = vendItems"
| "expand_cart ((pid, qty) # rest) vendItems =
     expand_cart rest (push_units 0 qty pid vendItems)"

text \<open>
  The handler suspends twice: in \<open>await fs.readFile\<close> and in \<open>await fs.writeFile\<close>.
  \<open>confirm_deduct data s\<close> is the run between the two, where the read has
  delivered \<open>data\<close> and \<open>s\<close> is the state found on resuming: it answers at once
  (\<open>Some\<close> response) or hands the file to \<open>writeFile\<close> (\<open>None\<close>); the file is taken
  to have its new content from then on. \<open>confirm_finish s\<close> is the run after the
  write, on the state \<open>s\<close> found then. \<open>confirmCheckout\<close> is the handler when no other
  handler runs while it is suspended.
\<close>

definition confirm_deduct :: "raw_product list \<Rightarrow> backend \<Rightarrow> response option \<times> backend" where
  "confirm_deduct data s =
     (let ix = idToIndex data
      in case validate ix data (cart s) of
           Some err \<Rightarrow> (Some err, s)
         | None \<Rightarrow>
             (case deduct ix (cart s) data of
                None \<Rightarrow> (Some ServerError, s)
              | Some data' \<Rightarrow>
                  (None, s\<lparr> dataFile := map written data',
                            trace := trace s @ [EvWriteFile] \<rparr>)))"

definition confirm_finish :: "backend \<Rightarrow> response \<times> backend" where
  "confirm_finish s1 =
     (let s2 = invalidateJsonCache s1;
          entries = cart s2;
          checkedOut = entries;
          vendItems = expand_cart entries [];
          s3 = s2\<lparr> cart := [], trace := trace s2 @ [EvClearCart] \<rparr>
      in case sendToVMC vendItems s3 of
           (sent, s4) \<Rightarrow>
             let s5 = (if \<not> sent
                       then let c = connectToVMC s4
                            in c\<lparr> timers := timers c @ [vendItems],
                                  trace := trace c @ [EvSetTimeout vendItems] \<rparr>
                       else s4)
             in (Confirmed checkedOut sent (length vendItems), s5))"

definition confirmCheckout :: "backend \<Rightarrow> response \<times> backend" where
  "confirmCheckout s =
     (case confirm_deduct (dataFile s) s of
        (Some err, s') \<Rightarrow> (err, s')
      | (None, s1) \<Rightarrow> confirm_finish s1)"

text \<open>The callback of the retry timer: one more \<open>sendToVMC\<close> of the same message.\<close>

definition retry_timer :: "backend \<Rightarrow> backend" where
  "retry_timer s =
     (case timers s of
        [] \<Rightarrow> s
      | m # ms \<Rightarrow> snd (sendToVMC m (s\<lparr> timers := ms \<rparr>)))"

section \<open>The vend controller (vmc/server.js)\<close>

datatype vstatus = Idle | Vending

record vendingState =
  status :: vstatus
  currentItems :: "json list"
  startTime :: "int option"
  timeout :: bool
  statusInterval :: bool

text \<open>
  \<open>timeout\<close> and \<open>statusInterval\<close> say whether the field holds a timer handle.
  A reply goes to the requesting client, a broadcast to every open socket.
\<close>

datatype vmc_reply =
    InvalidItems
  | Busy "json list"
  | VendStarted "json list" nat

datatype broadcast =
    StatusVending "json list"
  | Progress "json list" int
  | VendComplete "json list"

definition vmc_init :: vendingState where
  "vmc_init = \<lparr> status = Idle, currentItems = [], startTime = None,
                timeout = False, statusInterval = False \<rparr>"

text \<open>\<open>app.post('/vend')\<close> with body property \<open>items\<close>, at clock reading \<open>now\<close>.\<close>

definition http_vend :: "int \<Rightarrow> json option \<Rightarrow> vendingState \<Rightarrow> vmc_reply \<times> broadcast list \<times> vendingState" where
  "http_vend now items vs =
     (if \<not> Array_isArray items \<or> length (array_elems items) = 0
      then (InvalidItems, [], vs)
      else if status vs = Vending
      then (Busy (currentItems vs), [], vs)
      else
        let its = array_elems items;
            vs' = vs\<lparr> status := Vending, currentItems := its, startTime := Some now \<rparr>
        in (VendStarted its 5000, [StatusVending its],
            vs'\<lparr> statusInterval := True, timeout := True \<rparr>))"

text \<open>The \<open>vend\<close> branch of the WebSocket message handler.\<close>

definition ws_vend :: "int \<Rightarrow> json option \<Rightarrow> vendingState \<Rightarrow> vmc_reply \<times> broadcast list \<times> vendingState" where
  "ws_vend now items vs =
     (if \<not> Array_isArray items \<or> length (array_elems items) = 0
      then (InvalidItems, [], vs)
      else if status vs = Vending
      then (Busy (currentItems vs), [], vs)
      else
        let its = array_elems items;
            vs' = vs\<lparr> status := Vending, currentItems := its, startTime := Some now \<rparr>
        in (VendStarted its 5000, [StatusVending its],
            vs'\<lparr> statusInterval := True, timeout := True \<rparr>))"

text \<open>The interval callback (every second) and the completion callback (after 5 s).\<close>

definition status_tick :: "int \<Rightarrow> vendingState \<Rightarrow> broadcast list \<times> vendingState" where
  "status_tick now vs =
     (case startTime vs of
        Some t \<Rightarrow>
          if status vs = Vending \<and> t \<noteq> 0
          then ([Progress (currentItems vs) (now - t)], vs)
          else ([], vs\<lparr> statusInterval := False \<rparr>)
      | None \<Rightarrow> ([], vs\<lparr> statusInterval := False \<rparr>))"

definition vend_complete :: "vendingState \<Rightarrow> broadcast list \<times> vendingState" where
  "vend_complete vs =
     (let vendedItems = currentItems vs
      in ([VendComplete vendedItems],
          vs\<lparr> statusInterval := False, status := Idle, currentItems := [],
              startTime := None, timeout := False \<rparr>))"

section \<open>Stock as the checkout reads it, and example states\<close>

text \<open>
  The records of a product id in a data file: the first one, which \<open>addToCart\<close>
  is to read, and the last one, which \<open>confirmCheckout\<close> is to read (they are the
  same record when no two records share an id). The live stock of a product is the
  stock of its last record, \<open>None\<close> when the id has no record. A cart line is
  covered when its product has a record with a finite stock not below the quantity.
\<close>

definition first_record :: "raw_product list \<Rightarrow> rat \<Rightarrow> raw_product option" where
  "first_record data pid = find_first (\<lambda>r. coerced (product_id r) = Fin pid) data"

definition last_record :: "raw_product list \<Rightarrow> rat \<Rightarrow> raw_product option" where
  "last_record data pid = find_first (\<lambda>r. coerced (product_id r) = Fin pid) (rev data)"

definition live_stock :: "raw_product list \<Rightarrow> rat \<Rightarrow> jsnum option" where
  "live_stock data pid =
     (case last_record data pid of
        None \<Rightarrow> None
      | Some r \<Rightarrow> Some (coerced (shelf_life_count r)))"

fun covered :: "raw_product list \<Rightarrow> rat \<times> rat \<Rightarrow> bool" where
  "covered data (pid, qty) =
     (case live_stock data pid of
        Some (Fin a) \<Rightarrow> qty \<le> a
      | _ \<Rightarrow> False)"

text \<open>The body \<open>{productId: p, quantity: q}\<close> with two finite numbers.\<close>

definition add_request :: "rat \<Rightarrow> rat \<Rightarrow> add_body option" where
  "add_request p q =
     Some \<lparr> productId = Some (JNum (Fin p)), quantity = Some (JNum (Fin q)) \<rparr>"

text \<open>A freshly started backend over a data file, with a given cart and an open link.\<close>

definition kiosk :: "raw_product list \<Rightarrow> cart_items \<Rightarrow> backend" where
  "kiosk data items =
     \<lparr> cart = items, dataFile = data, cachedProducts = None, lastLoaded = 0,
       vmcClient = Some OPEN, delivered = [], timers = [], trace = [] \<rparr>"

text \<open>A record with a numeric id, price and stock.\<close>

definition product :: "rat \<Rightarrow> rat \<Rightarrow> rat \<Rightarrow> bool \<Rightarrow> raw_product" where
  "product pid price stock active =
     \<lparr> product_id = JsonNumber (Fin pid), product_name = ''Cola'',
       product_price = JsonNumber (Fin price),
       shelf_life_count = JsonNumber (Fin stock), is_active = active \<rparr>"

text \<open>The parts of an order summary.\<close>

fun orderId_of :: "response \<Rightarrow> string" where
  "orderId_of (Order oid its tot) = oid"
| "orderId_of r = []"

fun items_of :: "response \<Rightarrow> order_line list" where
  "items_of (Order oid its tot) = its"
| "items_of r = []"

fun total_of :: "response \<Rightarrow> jsnum" where
  "total_of (Order oid its tot) = tot"
| "total_of r = Fin 0"

text \<open>The vend controller in the middle of a cycle for the items 3, 3, 5.\<close>

definition vending_335 :: vendingState where
  "vending_335 =
     \<lparr> status = Vending,
       currentItems = [JNum (Fin 3), JNum (Fin 3), JNum (Fin 5)],
       startTime = Some 1000, timeout = True, statusInterval = True \<rparr>"


text \<open>The cache is empty or holds what a load of the data file would give.\<close>

definition cache_agrees :: "backend \<Rightarrow> bool" where
  "cache_agrees s =
     (case cachedProducts s of
        None \<Rightarrow> True
      | Some ps \<Rightarrow> ps = map toJsonProduct (dataFile s))"

text \<open>
  A backend that loaded the catalogue at time 0, when product 7 cost 10, and whose
  data file was then edited from outside to the price 20.
\<close>

definition stale_kiosk :: backend where
  "stale_kiosk =
     (snd (prepareCheckout 0 0 (kiosk [product 7 10 2 True] [(7, 1)])))
       \<lparr> dataFile := [product 7 20 2 True] \<rparr>"

text \<open>
  A backend to whose cart 1 of product 1 and 5 of product 9 were added, and whose
  data file was then edited from outside: the record of product 1 is gone and the
  stock of product 9 is down from 5 to 3.
\<close>

definition orphan_kiosk :: backend where
  "orphan_kiosk =
     (snd (addToCart (add_request 9 5)
        (snd (addToCart (add_request 1 1)
           (kiosk [product 1 10 4 True, product 9 30 5 True] [])))))
       \<lparr> dataFile := [product 9 30 3 True] \<rparr>"

text \<open>
  A confirm of the cart \<open>{7: 1}\<close> against a stock of 3, and an \<open>addToCart\<close> of one
  more unit of product 7 that is handled while the confirm waits for its write.
\<close>

definition interleaved_confirm :: "response \<times> backend" where
  "interleaved_confirm =
     (let s0 = kiosk [product 7 20 3 True] [(7, 1)];
          s1 = snd (confirm_deduct (dataFile s0) s0);
          s2 = snd (addToCart (add_request 7 1) s1)
      in confirm_finish s2)"

section \<open>Facts about the double arithmetic\<close>

text \<open>
  The exponent found is the least one, and a number \<open>m / 2^k\<close> with \<open>|m| < 2^53\<close>
  and \<open>k \<le> 1074\<close> is a double: rounding leaves it as it is. So sums, differences
  and products are exact where the exact result is such a number, in particular
  on integers of magnitude below \<open>2^53\<close>; above, they round.
\<close>

lemma ulp_exponent_bounds:
  "q0 \<le> j \<Longrightarrow> x < 2 ^ 53 * 2 powi j \<Longrightarrow>
     q0 \<le> ulp_exponent x q0 \<and> ulp_exponent x q0 \<le> j"
proof (induction x q0 rule: ulp_exponent.induct)
  case (1 x q)
  show ?case
  proof (cases "x < 2 ^ 53 * 2 powi q")
    case True
    with 1(2) show ?thesis
      by (subst (1 2) ulp_exponent.simps) simp
  next
    case False
    have "q < j"
    proof (rule ccontr)
      assume "\<not> q < j"
      then have "(2::rat) powi j \<le> 2 powi q"
        by (intro power_int_increasing) simp_all
      then have "(2::rat) ^ 53 * 2 powi j \<le> 2 ^ 53 * 2 powi q"
        by simp
      with 1(3) False show False by linarith
    qed
    then have "q + 1 \<le> j" by simp
    from 1(1) [OF False this 1(3)] False show ?thesis
      by (subst (1 2) ulp_exponent.simps) simp
  qed
qed

lemma ulp_exponent_eq:
  "q0 \<le> q \<Longrightarrow> x < 2 ^ 53 * 2 powi q \<Longrightarrow> (q0 < q \<longrightarrow> 2 ^ 53 * 2 powi (q - 1) \<le> x) \<Longrightarrow>
     ulp_exponent x q0 = q"
proof (induction x q0 rule: ulp_exponent.induct)
  case (1 x q0)
  show ?case
  proof (cases "x < 2 ^ 53 * 2 powi q0")
    case True
    have "q0 = q"
    proof (rule ccontr)
      assume "q0 \<noteq> q"
      with 1(2) have lt: "q0 < q" by simp
      then have "(2::rat) powi q0 \<le> 2 powi (q - 1)"
        by (intro power_int_increasing) simp_all
      then have "(2::rat) ^ 53 * 2 powi q0 \<le> 2 ^ 53 * 2 powi (q - 1)"
        by simp
      with 1(4) lt True show False by auto
    qed
    with True show ?thesis
      by (subst ulp_exponent.simps) simp
  next
    case False
    have "q0 < q"
    proof (rule ccontr)
      assume "\<not> q0 < q"
      with 1(2) have "q0 = q" by simp
      with 1(3) False show False by simp
    qed
    then have "q0 + 1 \<le> q" by simp
    moreover have "q0 + 1 < q \<longrightarrow> 2 ^ 53 * 2 powi (q - 1) \<le> x"
      using 1(4) by auto
    ultimately have "ulp_exponent x (q0 + 1) = q"
      using 1(1) [OF False] 1(3) by blast
    with False show ?thesis
      by (subst ulp_exponent.simps) simp
  qed
qed

lemma round_half_even_of_int: "round_half_even (of_int n) = n"
  by (simp add: round_half_even_def)

lemma fl_pos_exact:
  assumes "0 < m" and "m < 2 ^ 53" and "k \<le> 1074"
  shows "fl_pos (of_int m / 2 ^ k) = Fin (of_int m / 2 ^ k)"
proof -
  let ?x = "of_int m / 2 ^ k :: rat"
  have x: "?x = of_int m * 2 powi (- int k)"
    by (simp add: power_int_minus divide_inverse)
  have m53: "(of_int m :: rat) < 2 ^ 53"
    using assms(2) by (metis of_int_less_iff of_int_numeral of_int_power)
  have "?x \<le> of_int m"
    using assms(1) by (simp add: divide_le_eq)
  with m53 have x53: "?x < 2 ^ 53" by linarith
  have small: "\<not> 2 ^ 1024 - 2 ^ 970 \<le> ?x"
  proof -
    have "(2::rat) ^ 53 \<le> 2 ^ 1024 - 2 ^ 970" by simp
    with x53 show ?thesis by linarith
  qed
  define q where "q = ulp_exponent ?x (- 1074)"
  have "?x < 2 ^ 53 * 2 powi (- int k)"
    unfolding x using m53 by simp
  with assms(3) have q: "- 1074 \<le> q" "q \<le> - int k"
    using ulp_exponent_bounds [of "- 1074" "- int k" ?x] by (simp_all add: q_def)
  define n where "n = m * 2 ^ nat (- int k - q)"
  have "?x / 2 powi q = of_int m * 2 powi (- int k - q)"
    unfolding x by (simp add: power_int_diff)
  also have "\<dots> = of_int n"
    using q(2) by (simp add: n_def power_int_def)
  finally have quot: "?x / 2 powi q = of_int n" .
  have again: "of_int n * 2 powi q = ?x"
    using quot by (simp add: field_simps)
  have "fl_pos ?x = Fin (of_int (round_half_even (?x / 2 powi q)) * 2 powi q)"
    using small by (simp only: fl_pos_def Let_def q_def if_False)
  also have "\<dots> = Fin ?x"
    by (simp only: quot round_half_even_of_int again)
  finally show ?thesis .
qed

lemma fl_exact:
  assumes "\<bar>m\<bar> < 2 ^ 53" and "k \<le> 1074"
  shows "fl (of_int m / 2 ^ k) = Fin (of_int m / 2 ^ k)"
proof (cases "m = 0")
  case True
  then show ?thesis by (simp add: fl_def)
next
  case False
  show ?thesis
  proof (cases "0 < m")
    case True
    with assms fl_pos_exact [of m k] show ?thesis
      by (simp add: fl_def)
  next
    case neg: False
    with False have m: "0 < - m" "- m < 2 ^ 53" using assms(1) by simp_all
    have "of_int m / 2 ^ k < (0::rat)"
      using m(1) by (simp add: divide_neg_pos)
    with fl_pos_exact [OF m assms(2)] show ?thesis
      by (simp add: fl_def)
  qed
qed

lemma fl_numeral: "numeral n < (2::int) ^ 53 \<Longrightarrow> fl (numeral n) = Fin (numeral n)"
  using fl_exact [of "numeral n" 0] by simp

lemma fl_numeral_half: "numeral n < (2::int) ^ 53 \<Longrightarrow> fl (numeral n / 2) = Fin (numeral n / 2)"
  using fl_exact [of "numeral n" 1] by simp

lemma fl_zero: "fl 0 = Fin 0"
  by (simp add: fl_def)

lemma fl_one: "fl 1 = Fin 1"
  using fl_exact [of 1 0] by simp



lemma fl_of_int: "\<bar>n\<bar> < 2 ^ 53 \<Longrightarrow> fl (of_int n) = Fin (of_int n)"
  using fl_exact [of n 0] by simp

lemma fl_rounds_at_2_53: "fl (2 ^ 53 + 1) = Fin (2 ^ 53)"
proof -
  have q: "ulp_exponent (2 ^ 53 + 1) (- 1074) = 1"
    by (rule ulp_exponent_eq) simp_all
  have f: "\<lfloor>(2 ^ 53 + 1) / 2 :: rat\<rfloor> = 2 ^ 52"
    by (rule floor_unique) simp_all
  have r: "round_half_even ((2 ^ 53 + 1) / 2) = 2 ^ 52"
    unfolding round_half_even_def Let_def f by simp
  have ns: "\<not> 2 ^ 1024 - 2 ^ 970 \<le> (2 ^ 53 + 1 :: rat)"
    by simp
  have "fl (2 ^ 53 + 1) = fl_pos (2 ^ 53 + 1)"
    by (simp add: fl_def)
  also have "\<dots> = Fin (of_int (round_half_even ((2 ^ 53 + 1) / 2 powi 1)) * 2 powi 1)"
    by (simp only: fl_pos_def ns if_False Let_def q)
  also have "\<dots> = Fin (2 ^ 53)"
    by (simp only: power_int_1_right r) simp
  finally show ?thesis .
qed

lemma fl_2_53_plus_1: "fl 9007199254740993 = Fin 9007199254740992"
  using fl_rounds_at_2_53 by simp

text \<open>Rounding a positive number gives a non-negative number or \<open>Infinity\<close>.\<close>

lemma round_half_even_nonneg: "0 \<le> y \<Longrightarrow> 0 \<le> round_half_even y"
  by (simp add: round_half_even_def Let_def)

lemma fl_pos_cases: "0 \<le> x \<Longrightarrow> fl_pos x = PosInf \<or> (\<exists>r. fl_pos x = Fin r \<and> 0 \<le> r)"
  by (simp add: fl_pos_def Let_def round_half_even_nonneg)

lemma fl_nonneg_cases: "0 \<le> x \<Longrightarrow> fl x = PosInf \<or> (\<exists>r. fl x = Fin r \<and> 0 \<le> r)"
  using fl_pos_cases [of x] by (simp add: fl_def)

lemma js_add_exact:
  "\<bar>i + j\<bar> < 2 ^ 53 \<Longrightarrow> js_add (of_int i) (of_int j) = Fin (of_int i + of_int j)"
  using fl_of_int [of "i + j"] by (simp add: js_add_def)

lemma js_minus_exact:
  "\<bar>i - j\<bar> < 2 ^ 53 \<Longrightarrow> js_minus (Fin (of_int i)) (of_int j) = Fin (of_int i - of_int j)"
  using fl_of_int [of "i - j"] by simp

text \<open>A sum that is not above a finite stock is finite.\<close>

lemma addToCart_sum_finite:
  "0 \<le> a \<Longrightarrow> 0 < q \<Longrightarrow> \<not> js_greater (js_add a q) available \<Longrightarrow>
     \<exists>sum. js_add a q = Fin sum \<and> 0 \<le> sum \<and> sum \<le> available"
  using fl_nonneg_cases [of "a + q"] by (auto simp: js_add_def)

section \<open>Facts about the containers\<close>

lemma Map_get_set: "Map_get (Map_set k v m) k' = (if k' = k then Some v else Map_get m k')"
  by (induction m) (auto split: if_splits)

lemma inCart_of_set:
  "inCart_of (Map_set k v m) k' = (if k' = k then v else inCart_of m k')"
  by (simp add: inCart_of_def Map_get_set)

lemma map_fst_Map_set:
  "map fst (Map_set k v m) = (if k \<in> fst ` set m then map fst m else map fst m @ [k])"
  by (induction m) (force simp: image_iff)+

lemma distinct_Map_set: "distinct (map fst m) \<Longrightarrow> distinct (map fst (Map_set k v m))"
  by (simp add: map_fst_Map_set)

lemma set_Map_set: "set (Map_set k v m) \<subseteq> insert (k, v) (set m)"
  by (induction m) (auto split: if_splits)

lemma findIndex_map: "findIndex P (map f xs) = findIndex (P \<circ> f) xs"
  by (induction xs) auto

lemma findIndex_Some: "findIndex P xs = Some i \<Longrightarrow> i < length xs \<and> P (xs ! i)"
  by (induction xs arbitrary: i) (auto split: if_splits)

text \<open>\<open>findIndex\<close> gives the position of the element \<open>find\<close> gives.\<close>

lemma findIndex_find_first:
  "(findIndex P xs = None \<longleftrightarrow> find_first P xs = None)
   \<and> (\<forall>i. findIndex P xs = Some i \<longrightarrow> find_first P xs = Some (xs ! i))"
  by (induction xs) auto

lemma find_first_append:
  "find_first P (xs @ ys) = (case find_first P xs of Some x \<Rightarrow> Some x | None \<Rightarrow> find_first P ys)"
  by (induction xs) auto

lemma find_first_None_iff: "find_first P xs = None \<longleftrightarrow> (\<forall>x \<in> set xs. \<not> P x)"
  by (induction xs) auto

lemma find_first_Some: "find_first P xs = Some x \<Longrightarrow> x \<in> set xs \<and> P x"
  by (induction xs) (auto split: if_splits)

lemma find_first_map:
  "find_first P (map f xs) = map_option f (find_first (P \<circ> f) xs)"
  by (induction xs) auto

section \<open>addToCart\<close>

text \<open>
  The guard of \<open>addToCart\<close> lets a body through only when both properties are
  finite numbers, the product id is not zero and the quantity is positive.
\<close>

lemma addToCart_guard:
  "addToCart_with data (Some body) s \<noteq> (InvalidRequest, s) \<Longrightarrow>
     \<exists>p q. Some body = add_request p q \<and> p \<noteq> 0 \<and> 0 < q"
proof -
  assume ok: "addToCart_with data (Some body) s \<noteq> (InvalidRequest, s)"
  then have g: "truthy (productId body)" "Number_isFinite (productId body)"
      "truthy (quantity body)" "Number_isFinite (quantity body)"
      "\<not> the_number (quantity body) \<le> 0"
    by (auto simp: addToCart_with_def split: if_splits)
  from g(2) obtain p where p: "productId body = Some (JNum (Fin p))"
    by (cases "productId body" rule: Number_isFinite.cases) auto
  from g(4) obtain q where q: "quantity body = Some (JNum (Fin q))"
    by (cases "quantity body" rule: Number_isFinite.cases) auto
  have "Some body = add_request p q"
    using p q by (simp add: add_request_def)
  moreover have "p \<noteq> 0" using g(1) p by simp
  moreover have "0 < q" using g(5) q by simp
  ultimately show ?thesis by blast
qed

text \<open>
  A quantity that is absent, not a number, not finite, zero or negative is refused
  and nothing changes.
\<close>

lemma addToCart_rejects:
  "(\<forall>r. quantity body = Some (JNum (Fin r)) \<longrightarrow> r \<le> 0) \<Longrightarrow>
     addToCart (Some body) s = (InvalidRequest, s)"
proof (rule ccontr)
  assume all: "\<forall>r. quantity body = Some (JNum (Fin r)) \<longrightarrow> r \<le> 0"
    and "addToCart (Some body) s \<noteq> (InvalidRequest, s)"
  then obtain p q where b: "Some body = add_request p q" and q: "0 < q"
    using addToCart_guard [of "dataFile s" body s] by (auto simp: addToCart_def)
  from b have "quantity body = Some (JNum (Fin q))"
    by (auto simp: add_request_def)
  with all have "q \<le> 0" by blast
  with q show False by simp
qed

text \<open>The product's \<open>is_active\<close> flag has no influence on the answer of \<open>addToCart\<close>.\<close>

lemma addToCart_ignores_is_active:
  "fst (addToCart body (s\<lparr> dataFile := map (\<lambda>r. r\<lparr> is_active := b \<rparr>) (dataFile s) \<rparr>)) =
   fst (addToCart body s)"
proof (cases body)
  case None
  then show ?thesis by (simp add: addToCart_def addToCart_with_def)
next
  case (Some bd)
  let ?P = "\<lambda>r. coerced (product_id r) = Fin (the_number (productId bd))"
  let ?f = "\<lambda>r::raw_product. r\<lparr> is_active := b \<rparr>"
  have fi: "findIndex ?P (map ?f (dataFile s)) = findIndex ?P (dataFile s)"
    by (simp add: findIndex_map comp_def)
  have nth: "\<And>i. findIndex ?P (dataFile s) = Some i \<Longrightarrow>
      shelf_life_count (map ?f (dataFile s) ! i) = shelf_life_count (dataFile s ! i)"
    by (drule findIndex_Some) simp
  show ?thesis
    by (auto simp: Some addToCart_def addToCart_with_def Let_def fi nth
        split: option.splits jsnum.splits)
qed

text \<open>
  What \<open>addToCart\<close> does with a request that passed the guard, in terms of the first
  record that carries the product id.
\<close>

lemma addToCart_with_unfold:
  assumes "p \<noteq> 0" and "0 < q"
  shows "addToCart_with data (add_request p q) s =
     (case first_record data p of
        None \<Rightarrow> (ProductNotFound p, s)
      | Some r \<Rightarrow>
          (case coerced (shelf_life_count r) of
             Fin available \<Rightarrow>
               if js_greater (js_add (inCart_of (cart s) p) q) available
               then (InsufficientStockAdd p (Fin available) (inCart_of (cart s) p) q, s)
               else (CartSnapshot (Map_set p (the_finite (js_add (inCart_of (cart s) p) q)) (cart s)),
                     s\<lparr> cart := Map_set p (the_finite (js_add (inCart_of (cart s) p) q)) (cart s) \<rparr>)
           | _ \<Rightarrow> (InvalidStock p, s)))"
proof (cases "findIndex (\<lambda>r. coerced (product_id r) = Fin p) data")
  case None
  then have "first_record data p = None"
    using findIndex_find_first [of "\<lambda>r. coerced (product_id r) = Fin p" data]
    by (simp add: first_record_def)
  with None assms show ?thesis
    by (simp add: addToCart_with_def add_request_def)
next
  case (Some idx)
  then have "first_record data p = Some (data ! idx)"
    using findIndex_find_first [of "\<lambda>r. coerced (product_id r) = Fin p" data]
    by (simp add: first_record_def)
  with Some assms show ?thesis
    by (simp add: addToCart_with_def add_request_def Let_def split: jsnum.splits)
qed

text \<open>
  The sum is rounded: with \<open>2^53\<close> units of product 7 in the cart and a stock of
  \<open>2^53 + 2\<close>, the request for one more unit is accepted and the cart still holds
  \<open>2^53\<close> units.
\<close>

lemma addToCart_rounds_sum:
  "addToCart (add_request 7 1)
     (kiosk [product 7 20 9007199254740994 True] [(7, 9007199254740992)]) =
   (CartSnapshot [(7, 9007199254740992)],
    kiosk [product 7 20 9007199254740994 True] [(7, 9007199254740992)])"
  by (simp add: addToCart_def addToCart_with_unfold first_record_def kiosk_def product_def
      inCart_of_def js_add_def fl_2_53_plus_1)


text \<open>
  C2, as the claim words it, fails in two ways. A product whose id is 0 has a record
  and a stock of 2, and the valid quantity 1 is asked for: the request is refused as
  invalid, for the guard tests \<open>!productId\<close>. And the sum of the cart quantity and the
  requested quantity is a double: with \<open>2^53\<close> units in the cart and a stock of
  \<open>2^53 + 2\<close>, one more unit is accepted and the cart quantity does not grow.
\<close>

theorem addToCart_refuses_id_zero_and_rounds:
  "first_record [product 0 20 2 True] 0 = Some (product 0 20 2 True)
   \<and> addToCart (add_request 0 1) (kiosk [product 0 20 2 True] []) =
       (InvalidRequest, kiosk [product 0 20 2 True] [])
   \<and> addToCart (add_request 7 1)
        (kiosk [product 7 20 9007199254740994 True] [(7, 9007199254740992)]) =
       (CartSnapshot [(7, 9007199254740992)],
        kiosk [product 7 20 9007199254740994 True] [(7, 9007199254740992)])"
  by (simp add: addToCart_rounds_sum)
    (simp add: first_record_def product_def addToCart_def addToCart_with_def add_request_def)

text \<open>
  C2, amended. \<open>addToCart\<close> is \<open>addToCart_with\<close> on the file as it is at the call.
  For a request with the numbers \<open>p\<close> and \<open>q\<close>, whatever the read delivers as
  \<open>data\<close>: the request is refused as invalid when \<open>p\<close> is 0 or \<open>q\<close> is not above
  0; otherwise it is answered with not-found when no record carries the id \<open>p\<close>,
  and with invalid-stock when the stock of the first such record is not a finite
  number; in these cases nothing changes. With a finite stock \<open>available\<close>, the
  answer is \<open>INSUFFICIENT_STOCK\<close> exactly when the double sum of the quantity in
  the cart and \<open>q\<close> exceeds \<open>available\<close>; the error carries \<open>available\<close>, \<open>inCart\<close>
  and \<open>requested\<close> and the state is left as it was. Otherwise (the cart quantity
  not negative) the sum is a finite number not above \<open>available\<close>, the product's
  cart quantity becomes that sum, nothing else in the state changes, and the answer
  is the snapshot of the whole new cart. The sum is the exact one when both
  quantities are whole and their sum is below \<open>2^53\<close> in magnitude.
\<close>

theorem addToCart_stock_check:
  "addToCart (add_request p q) s = addToCart_with (dataFile s) (add_request p q) s
   \<and> (p = 0 \<or> q \<le> 0 \<longrightarrow> addToCart_with data (add_request p q) s = (InvalidRequest, s))
   \<and> (p \<noteq> 0 \<and> 0 < q \<and> first_record data p = None \<longrightarrow>
        addToCart_with data (add_request p q) s = (ProductNotFound p, s))
   \<and> (p \<noteq> 0 \<and> 0 < q \<and> first_record data p = Some r
        \<and> \<not> isFinite (coerced (shelf_life_count r)) \<longrightarrow>
        addToCart_with data (add_request p q) s = (InvalidStock p, s))
   \<and> (p \<noteq> 0 \<and> 0 < q \<and> first_record data p = Some r
        \<and> coerced (shelf_life_count r) = Fin available \<longrightarrow>
        (fst (addToCart_with data (add_request p q) s) =
           InsufficientStockAdd p (Fin available) (inCart_of (cart s) p) q
         \<longleftrightarrow> js_greater (js_add (inCart_of (cart s) p) q) available)
        \<and> (js_greater (js_add (inCart_of (cart s) p) q) available \<longrightarrow>
             snd (addToCart_with data (add_request p q) s) = s)
        \<and> (\<not> js_greater (js_add (inCart_of (cart s) p) q) available
             \<and> 0 \<le> inCart_of (cart s) p \<longrightarrow>
             (\<exists>sum. js_add (inCart_of (cart s) p) q = Fin sum \<and> sum \<le> available
                \<and> addToCart_with data (add_request p q) s =
                    (CartSnapshot (Map_set p sum (cart s)),
                     s\<lparr> cart := Map_set p sum (cart s) \<rparr>)
                \<and> inCart_of (Map_set p sum (cart s)) p = sum
                \<and> (\<forall>p'. p' \<noteq> p \<longrightarrow>
                      inCart_of (Map_set p sum (cart s)) p' = inCart_of (cart s) p'))))
   \<and> (\<forall>i j. inCart_of (cart s) p = of_int i \<and> q = of_int j \<and> \<bar>i + j\<bar> < 2 ^ 53 \<longrightarrow>
          js_add (inCart_of (cart s) p) q = Fin (inCart_of (cart s) p + q))"
proof -
  let ?R = "addToCart_with data (add_request p q) s"
  let ?c = "inCart_of (cart s) p"
  have a: "addToCart (add_request p q) s = addToCart_with (dataFile s) (add_request p q) s"
    by (simp add: addToCart_def)
  have b: "p = 0 \<or> q \<le> 0 \<longrightarrow> ?R = (InvalidRequest, s)"
    by (auto simp: addToCart_with_def add_request_def)
  have c: "p \<noteq> 0 \<and> 0 < q \<and> first_record data p = None \<longrightarrow> ?R = (ProductNotFound p, s)"
    by (simp add: addToCart_with_unfold)
  have d: "p \<noteq> 0 \<and> 0 < q \<and> first_record data p = Some r
        \<and> \<not> isFinite (coerced (shelf_life_count r)) \<longrightarrow> ?R = (InvalidStock p, s)"
    by (auto simp: addToCart_with_unfold split: jsnum.splits)
  have e: "(fst ?R = InsufficientStockAdd p (Fin available) ?c q
         \<longleftrightarrow> js_greater (js_add ?c q) available)
        \<and> (js_greater (js_add ?c q) available \<longrightarrow> snd ?R = s)
        \<and> (\<not> js_greater (js_add ?c q) available \<and> 0 \<le> ?c \<longrightarrow>
             (\<exists>sum. js_add ?c q = Fin sum \<and> sum \<le> available
                \<and> ?R = (CartSnapshot (Map_set p sum (cart s)), s\<lparr> cart := Map_set p sum (cart s) \<rparr>)
                \<and> inCart_of (Map_set p sum (cart s)) p = sum
                \<and> (\<forall>p'. p' \<noteq> p \<longrightarrow>
                      inCart_of (Map_set p sum (cart s)) p' = inCart_of (cart s) p')))"
    if h: "p \<noteq> 0" "0 < q" "first_record data p = Some r"
      "coerced (shelf_life_count r) = Fin available"
  proof -
    have eq: "?R =
       (if js_greater (js_add ?c q) available
        then (InsufficientStockAdd p (Fin available) ?c q, s)
        else (CartSnapshot (Map_set p (the_finite (js_add ?c q)) (cart s)),
              s\<lparr> cart := Map_set p (the_finite (js_add ?c q)) (cart s) \<rparr>))"
      using h by (simp add: addToCart_with_unfold)
    have fin: "\<exists>sum. js_add ?c q = Fin sum \<and> sum \<le> available"
      if "\<not> js_greater (js_add ?c q) available" "0 \<le> ?c"
      using addToCart_sum_finite [OF that(2) h(2) that(1)] by blast
    show ?thesis
      using fin by (auto simp: eq inCart_of_set)
  qed
  have f: "\<forall>i j. ?c = of_int i \<and> q = of_int j \<and> \<bar>i + j\<bar> < 2 ^ 53 \<longrightarrow>
          js_add ?c q = Fin (?c + q)"
    using js_add_exact by auto
  from a b c d e f show ?thesis
    by blast
qed

text \<open>
  The scenario of the specification: with a stock of 2 for product 7,
  \<open>addToCart(7, 2)\<close> succeeds and \<open>addToCart(7, 1)\<close> is then refused with
  \<open>available 2, inCart 2, requested 1\<close>.
\<close>

theorem addToCart_stock_check_witness:
  "addToCart (add_request 7 2) (kiosk [product 7 20 2 True] []) =
     (CartSnapshot [(7, 2)], kiosk [product 7 20 2 True] [(7, 2)])
   \<and> fst (addToCart (add_request 7 1) (kiosk [product 7 20 2 True] [(7, 2)])) =
     InsufficientStockAdd 7 (Fin 2) 2 1
   \<and> snd (addToCart (add_request 7 1) (kiosk [product 7 20 2 True] [(7, 2)])) =
     kiosk [product 7 20 2 True] [(7, 2)]"
  using addToCart_stock_check [of 7 2 "kiosk [product 7 20 2 True] []"
          "[product 7 20 2 True]" "product 7 20 2 True" 2]
    addToCart_stock_check [of 7 1 "kiosk [product 7 20 2 True] [(7, 2)]"
          "[product 7 20 2 True]" "product 7 20 2 True" 2]
  by (simp add: kiosk_def product_def inCart_of_def first_record_def js_add_def fl_numeral)

text \<open>
  C8. The guard of \<open>addToCart\<close> tests that the quantity is a finite number above
  zero and never that it is an integer: the request \<open>{productId: 7, quantity: 1.5}\<close>
  against a stock of 2 is answered with the cart snapshot, and the cart then holds
  1.5 units of product 7.
\<close>

theorem addToCart_accepts_fraction:
  "addToCart (add_request 7 (3 / 2)) (kiosk [product 7 20 2 True] []) =
     (CartSnapshot [(7, 3 / 2)], kiosk [product 7 20 2 True] [(7, 3 / 2)])"
  by (simp add: addToCart_def addToCart_with_unfold first_record_def kiosk_def product_def
      inCart_of_def js_add_def fl_numeral_half)

theorem addToCart_accepts_fraction_witness:
  "inCart_of (cart (snd (addToCart (add_request 7 (3 / 2)) (kiosk [product 7 20 2 True] [])))) 7
     = 3 / 2"
  using addToCart_accepts_fraction by (simp add: kiosk_def inCart_of_def)

text \<open>
  C5. \<open>addToCart\<close> and \<open>confirmCheckout\<close> never read \<open>is_active\<close>: a product
  whose flag is false and whose stock is 2 is added to the cart, and the confirm
  that follows takes one unit off its stock and sends it to the vend controller.
\<close>

theorem inactive_product_is_sold:
  "addToCart (add_request 7 1) (kiosk [product 7 20 2 False] []) =
     (CartSnapshot [(7, 1)], kiosk [product 7 20 2 False] [(7, 1)])
   \<and> fst (confirmCheckout (kiosk [product 7 20 2 False] [(7, 1)])) = Confirmed [(7, 1)] True 1
   \<and> dataFile (snd (confirmCheckout (kiosk [product 7 20 2 False] [(7, 1)]))) =
       [product 7 20 1 False]
   \<and> delivered (snd (confirmCheckout (kiosk [product 7 20 2 False] [(7, 1)]))) = [[7]]"
  by (simp add: addToCart_def addToCart_with_unfold first_record_def js_add_def fl_one
      kiosk_def product_def Let_def inCart_of_def written_def
      confirmCheckout_def confirm_deduct_def confirm_finish_def
      idToIndex_def push_units.simps sendToVMC_def invalidateJsonCache_def)

theorem inactive_product_is_sold_witness:
  "map is_active (dataFile (snd (confirmCheckout (kiosk [product 7 20 2 False] [(7, 1)])))) = [False]
   \<and> map (\<lambda>r. coerced (shelf_life_count r))
        (dataFile (snd (confirmCheckout (kiosk [product 7 20 2 False] [(7, 1)])))) = [Fin 1]"
  using inactive_product_is_sold by (simp add: product_def)

section \<open>prepareCheckout: the order id\<close>

text \<open>The decimal rendering of a clock reading determines the reading.\<close>

lemma digit_char_inj: "a < 10 \<Longrightarrow> b < 10 \<Longrightarrow> digit_char a = digit_char b \<Longrightarrow> a = b"
proof -
  assume a: "a < 10" and b: "b < 10" and e: "digit_char a = digit_char b"
  have d: "distinct ''0123456789''" by simp
  have "length ''0123456789'' = 10" by simp
  with a b e d show "a = b"
    unfolding digit_char_def by (metis nth_eq_iff_index_eq)
qed

lemma digit_char_not_minus: "d < 10 \<Longrightarrow> digit_char d \<noteq> CHR ''-''"
proof -
  assume "d < 10"
  then have "d \<in> {0,1,2,3,4,5,6,7,8,9}" by auto
  then show ?thesis by (auto simp: digit_char_def)
qed

lemma string_of_nat_nonempty: "string_of_nat n \<noteq> []"
  by (subst string_of_nat.simps) simp

lemma string_of_nat_hd: "hd (string_of_nat n) \<noteq> CHR ''-''"
proof (induction n rule: string_of_nat.induct)
  case (1 n)
  show ?case
  proof (cases "n < 10")
    case True
    then show ?thesis
      by (subst string_of_nat.simps) (simp add: digit_char_not_minus)
  next
    case False
    with 1 show ?thesis
      by (subst string_of_nat.simps) (simp add: string_of_nat_nonempty)
  qed
qed

lemma string_of_nat_inj: "string_of_nat n = string_of_nat m \<Longrightarrow> n = m"
proof (induction n arbitrary: m rule: string_of_nat.induct)
  case (1 n)
  show ?case
  proof (cases "n < 10")
    case n: True
    show ?thesis
    proof (cases "m < 10")
      case True
      with n 1(2) show ?thesis
        by (simp add: string_of_nat.simps [of n] string_of_nat.simps [of m] digit_char_inj)
    next
      case False
      with n 1(2) show ?thesis
        by (simp add: string_of_nat.simps [of n] string_of_nat.simps [of m]
            string_of_nat_nonempty string_of_nat_nonempty [symmetric])
    qed
  next
    case n: False
    show ?thesis
    proof (cases "m < 10")
      case True
      with n 1(2) show ?thesis
        by (simp add: string_of_nat.simps [of n] string_of_nat.simps [of m]
            string_of_nat_nonempty string_of_nat_nonempty [symmetric])
    next
      case False
      with n 1(2) have e: "string_of_nat (n div 10) = string_of_nat (m div 10)"
        and d: "digit_char (n mod 10) = digit_char (m mod 10)"
        by (simp_all add: string_of_nat.simps [of n] string_of_nat.simps [of m])
      from 1(1) [OF n e] have "n div 10 = m div 10" .
      moreover from d have "n mod 10 = m mod 10"
        by (rule digit_char_inj [rotated 2]) simp_all
      ultimately show ?thesis
        by (metis div_mult_mod_eq)
    qed
  qed
qed

lemma string_of_int_inj: "string_of_int i = string_of_int j \<Longrightarrow> i = j"
proof -
  assume e: "string_of_int i = string_of_int j"
  have hd_neg: "\<And>k. k < 0 \<Longrightarrow> hd (string_of_int k) = CHR ''-''"
    by (simp add: string_of_int_def)
  have hd_pos: "\<And>k. \<not> k < 0 \<Longrightarrow> hd (string_of_int k) \<noteq> CHR ''-''"
    by (simp add: string_of_int_def string_of_nat_hd)
  have same: "i < 0 \<longleftrightarrow> j < 0"
    using e hd_neg hd_pos by metis
  show "i = j"
  proof (cases "i < 0")
    case True
    with same e have "string_of_nat (nat (- i)) = string_of_nat (nat (- j))"
      by (simp add: string_of_int_def)
    then have "nat (- i) = nat (- j)" by (rule string_of_nat_inj)
    with True same show ?thesis by simp
  next
    case False
    with same e have "string_of_nat (nat i) = string_of_nat (nat j)"
      by (simp add: string_of_int_def)
    then have "nat i = nat j" by (rule string_of_nat_inj)
    with False same show ?thesis by simp
  qed
qed

text \<open>
  The order id is \<open>order_\<close> followed by the clock reading, whatever the cart and
  the catalogue: two calls get the same id exactly when they read the same
  millisecond.
\<close>

lemma prepareCheckout_orderId:
  "orderId_of (fst (prepareCheckout t_load t_id s)) = ''order_'' @ string_of_int t_id"
  by (simp add: prepareCheckout_def Let_def split: prod.splits)

lemma orderId_eq_iff:
  "orderId_of (fst (prepareCheckout t_load t_id s)) = orderId_of (fst (prepareCheckout t_load' t_id' s'))
   \<longleftrightarrow> t_id = t_id'"
  by (auto simp: prepareCheckout_orderId dest: string_of_int_inj)

text \<open>
  C9. Two calls of \<open>prepareCheckout\<close>, one after the other, that both read the clock
  at millisecond 1000 both answer with the order id \<open>order_1000\<close>.
\<close>

theorem orderId_repeats_within_a_millisecond:
  "orderId_of (fst (prepareCheckout 1000 1000 (kiosk [product 7 20 2 True] [(7, 2)]))) = ''order_1000''
   \<and> orderId_of (fst (prepareCheckout 1000 1000
        (snd (prepareCheckout 1000 1000 (kiosk [product 7 20 2 True] [(7, 2)]))))) = ''order_1000''"
  by (simp add: prepareCheckout_orderId string_of_int_def string_of_nat.simps digit_char_def)

section \<open>The vend controller\<close>

text \<open>
  A vend is started only from the idle state, and one cycle of the specification's
  scenario runs as follows: \<open>[3,3,5]\<close> is accepted from idle, and the completion
  callback broadcasts \<open>[3,3,5]\<close> and returns to the initial idle state.
\<close>

lemma vend_started_only_from_idle:
  "fst (http_vend now items vs) = VendStarted its n \<or> fst (ws_vend now items vs) = VendStarted its n
     \<Longrightarrow> status vs = Idle"
  by (cases "status vs") (auto simp: http_vend_def ws_vend_def Let_def split: if_splits)

lemma vend_cycle_scenario:
  "ws_vend 1000 (Some (JArr [JNum (Fin 3), JNum (Fin 3), JNum (Fin 5)])) vmc_init =
     (VendStarted [JNum (Fin 3), JNum (Fin 3), JNum (Fin 5)] 5000,
      [StatusVending [JNum (Fin 3), JNum (Fin 3), JNum (Fin 5)]], vending_335)
   \<and> vend_complete vending_335 =
     ([VendComplete [JNum (Fin 3), JNum (Fin 3), JNum (Fin 5)]], vmc_init)"
  by (simp add: ws_vend_def vmc_init_def vending_335_def vend_complete_def Let_def)

text \<open>
  A vend command whose \<open>items\<close> is missing, not an array or empty is rejected as
  invalid whatever the state of the controller, and changes nothing.
\<close>

lemma invalid_vend_rejected:
  "\<not> (Array_isArray items \<and> array_elems items \<noteq> []) \<Longrightarrow>
     http_vend now items vs = (InvalidItems, [], vs)
     \<and> ws_vend now items vs = (InvalidItems, [], vs)"
  by (auto simp: http_vend_def ws_vend_def)

text \<open>
  C6, as stated, fails for a vend command without a usable item list: both handlers
  test the item list before they test the state, so while the controller is vending
  the command \<open>{type: 'vend', items: []}\<close> is answered with the invalid-items
  rejection and not with the busy response.
\<close>

theorem busy_only_for_wellformed_vend:
  "status vending_335 = Vending
   \<and> fst (http_vend 2000 (Some (JArr [])) vending_335) = InvalidItems
   \<and> fst (ws_vend 2000 (Some (JArr [])) vending_335) = InvalidItems
   \<and> fst (http_vend 2000 (Some (JArr [])) vending_335) \<noteq> Busy (currentItems vending_335)
   \<and> fst (ws_vend 2000 (Some (JArr [])) vending_335) \<noteq> Busy (currentItems vending_335)"
  by (simp add: vending_335_def http_vend_def ws_vend_def)

text \<open>
  C6, amended. While the controller is vending, a vend command (HTTP or WebSocket)
  whose \<open>items\<close> is a non-empty array is rejected with the busy response, which
  reports the item list in flight; a vend command whose \<open>items\<close> is missing, not
  an array or empty is rejected as invalid. In both cases nothing is broadcast and
  the controller's state (status, items, start time, timers) is unchanged, so no
  second cycle starts while one is active.
\<close>

theorem vend_while_vending:
  assumes "status vs = Vending"
  shows "http_vend now items vs =
           (if Array_isArray items \<and> array_elems items \<noteq> [] then Busy (currentItems vs)
            else InvalidItems, [], vs)
       \<and> ws_vend now items vs =
           (if Array_isArray items \<and> array_elems items \<noteq> [] then Busy (currentItems vs)
            else InvalidItems, [], vs)"
  using assms by (simp add: http_vend_def ws_vend_def)

theorem vend_while_vending_witness:
  "ws_vend 2000 (Some (JArr [JNum (Fin 1)])) vending_335 =
     (Busy [JNum (Fin 3), JNum (Fin 3), JNum (Fin 5)], [], vending_335)
   \<and> http_vend 2000 (Some (JArr [JNum (Fin 1)])) vending_335 =
     (Busy [JNum (Fin 3), JNum (Fin 3), JNum (Fin 5)], [], vending_335)"
  using vend_while_vending [of vending_335 2000 "Some (JArr [JNum (Fin 1)])"]
  by (simp add: vending_335_def)


section \<open>confirmCheckout: validation and the order of effects\<close>

text \<open>
  What the validation loop returns: an error names a cart product without a record
  or a cart line whose stock is not finite or below the reserved quantity; when the
  loop passes, every cart line has a record with a finite stock that covers it, and
  the deduction loop then never meets a missing record.
\<close>

lemma validate_Some:
  "validate ix data c = Some err \<Longrightarrow>
     (\<exists>p. err = ProductNotFound p \<and> p \<in> fst ` set c \<and> Map_get ix p = None) \<or>
     (\<exists>p q i. err = InsufficientStock p (coerced (shelf_life_count (data ! i))) q \<and> (p, q) \<in> set c \<and>
        Map_get ix p = Some i \<and>
        (\<not> isFinite (coerced (shelf_life_count (data ! i))) \<or> js_less (coerced (shelf_life_count (data ! i))) q))"
proof (induction c)
  case Nil
  then show ?case by simp
next
  case (Cons e c)
  obtain p q where e: "e = (p, q)" by (cases e)
  show ?case
  proof (cases "Map_get ix p")
    case None
    with Cons.prems e show ?thesis by force
  next
    case (Some i)
    show ?thesis
    proof (cases "\<not> isFinite (coerced (shelf_life_count (data ! i))) \<or> js_less (coerced (shelf_life_count (data ! i))) q")
      case True
      with Cons.prems e Some have "err = InsufficientStock p (coerced (shelf_life_count (data ! i))) q"
        by (auto simp: Let_def)
      with True Some e show ?thesis by auto
    next
      case False
      with Cons.prems e Some have "validate ix data c = Some err"
        by (auto simp: Let_def)
      from Cons.IH [OF this] show ?thesis by auto
    qed
  qed
qed

lemma validate_None:
  "validate ix data c = None \<Longrightarrow> (p, q) \<in> set c \<Longrightarrow>
     \<exists>i a. Map_get ix p = Some i \<and> coerced (shelf_life_count (data ! i)) = Fin a \<and> q \<le> a"
proof (induction c)
  case Nil
  then show ?case by simp
next
  case (Cons e c)
  obtain p' q' where e: "e = (p', q')" by (cases e)
  from Cons.prems(1) e obtain i where i: "Map_get ix p' = Some i"
    by (cases "Map_get ix p'") auto
  from Cons.prems(1) e i have fin: "isFinite (coerced (shelf_life_count (data ! i)))"
    and nl: "\<not> js_less (coerced (shelf_life_count (data ! i))) q'"
    and rest: "validate ix data c = None"
    by (auto simp: Let_def split: if_splits)
  from fin obtain a where a: "coerced (shelf_life_count (data ! i)) = Fin a"
    by (cases "coerced (shelf_life_count (data ! i))") auto
  show ?case
  proof (cases "(p, q) = (p', q')")
    case True
    with i a nl show ?thesis by auto
  next
    case False
    with Cons.prems(2) e have "(p, q) \<in> set c" by auto
    from Cons.IH [OF rest this] show ?thesis .
  qed
qed

lemma deduct_defined:
  "\<forall>p \<in> fst ` set c. Map_get ix p \<noteq> None \<Longrightarrow> deduct ix c data \<noteq> None"
proof (induction c arbitrary: data)
  case Nil
  then show ?case by simp
next
  case (Cons e c)
  obtain p q where e: "e = (p, q)" by (cases e)
  from Cons.prems e obtain i where i: "Map_get ix p = Some i" by force
  from Cons.prems have "\<forall>p \<in> fst ` set c. Map_get ix p \<noteq> None" by simp
  from Cons.IH [OF this] e i show ?case by (simp add: Let_def)
qed

lemma validated_deduct_defined:
  "validate ix data c = None \<Longrightarrow> deduct ix c data' \<noteq> None"
proof (rule deduct_defined, rule ballI)
  fix p assume v: "validate ix data c = None" and "p \<in> fst ` set c"
  then obtain q where "(p, q) \<in> set c" by force
  from validate_None [OF v this] show "Map_get ix p \<noteq> None" by auto
qed

lemma validate_not_Confirmed: "validate ix data c \<noteq> Some (Confirmed c' sent n)"
  using validate_Some [of ix data c "Confirmed c' sent n"] by auto




section \<open>prepareCheckout: no mutation, and repetition\<close>

text \<open>
  \<open>loadProducts\<close> touches nothing but the cache. From a cache that agrees with the
  data file it returns the catalogue of the file, and every handler keeps the
  agreement (\<open>confirmCheckout\<close> restores it by emptying the cache).
\<close>

lemma loadProducts_frame:
  "cart (snd (loadProducts t s)) = cart s \<and> dataFile (snd (loadProducts t s)) = dataFile s
   \<and> vmcClient (snd (loadProducts t s)) = vmcClient s
   \<and> delivered (snd (loadProducts t s)) = delivered s
   \<and> timers (snd (loadProducts t s)) = timers s \<and> trace (snd (loadProducts t s)) = trace s"
  by (simp add: loadProducts_def Let_def split: option.splits)

lemma loadProducts_agrees:
  "cache_agrees s \<Longrightarrow>
     fst (loadProducts t s) = map toJsonProduct (dataFile s) \<and> cache_agrees (snd (loadProducts t s))"
  by (auto simp: loadProducts_def cache_agrees_def Let_def split: option.splits)

lemma prepareCheckout_unfold:
  "prepareCheckout t_load t_id s =
     (Order (''order_'' @ string_of_int t_id)
        (map (order_line_of (fst (loadProducts t_load s))) (cart s))
        (foldl (\<lambda>acc it. js_plus acc (ol_amount it)) (Fin 0)
           (map (order_line_of (fst (loadProducts t_load s))) (cart s))),
      snd (loadProducts t_load s))"
  by (simp add: prepareCheckout_def Let_def case_prod_beta loadProducts_frame)

lemma cache_agrees_kept:
  "cache_agrees s \<Longrightarrow> cache_agrees (snd (addToCart body s))"
  "cache_agrees s \<Longrightarrow> cache_agrees (snd (clearCart s))"
  "cache_agrees s \<Longrightarrow> cache_agrees (snd (prepareCheckout t_load t_id s))"
  "cache_agrees (snd (confirmCheckout s)) = (cache_agrees s \<or> (\<exists>c b n. fst (confirmCheckout s) = Confirmed c b n))"
     apply (auto simp: cache_agrees_def addToCart_def addToCart_with_def Let_def clearCart_def
        split: option.splits jsnum.splits)[2]
   apply (simp add: prepareCheckout_unfold loadProducts_agrees)
  apply (auto simp: confirmCheckout_def confirm_deduct_def confirm_finish_def Let_def
      sendToVMC_def connectToVMC_def invalidateJsonCache_def validate_not_Confirmed
      cache_agrees_def split: option.splits)
  done

text \<open>
  C7, as stated, fails when the cache is older than an edit of the data file: the
  catalogue was cached at time 0 with price 10 and the file then changed to price
  20. A prepare at 59999 ms still prices from the cache (total 10), a prepare at
  60000 ms reloads the file (total 20), although neither the cart nor the data file
  changed in between.
\<close>

theorem prepareCheckout_stale_cache:
  "cart (snd (prepareCheckout 59999 59999 stale_kiosk)) = cart stale_kiosk
   \<and> dataFile (snd (prepareCheckout 59999 59999 stale_kiosk)) = dataFile stale_kiosk
   \<and> total_of (fst (prepareCheckout 59999 59999 stale_kiosk)) = Fin 10
   \<and> total_of (fst (prepareCheckout 60000 60000
        (snd (prepareCheckout 59999 59999 stale_kiosk)))) = Fin 20
   \<and> items_of (fst (prepareCheckout 59999 59999 stale_kiosk)) \<noteq>
     items_of (fst (prepareCheckout 60000 60000
        (snd (prepareCheckout 59999 59999 stale_kiosk))))"
  by (simp add: stale_kiosk_def prepareCheckout_def loadProducts_def kiosk_def product_def
      toJsonProduct_def order_line_of_def CACHE_TTL_MS_def Let_def js_times_def fl_numeral)

text \<open>
  C7, amended. \<open>prepareCheckout\<close> changes neither the cart nor the data file (and so
  no stock), and has no outside effect; it may only refresh the catalogue cache. When
  the cache is empty or agrees with the data file at the first call, a second call
  at any later clock reading returns the same line items and the same total as the
  first (the order ids may differ): the lines are the cart lines priced from the
  data file.
\<close>

theorem prepareCheckout_repeatable:
  "cart (snd (prepareCheckout t1 u1 s)) = cart s
   \<and> dataFile (snd (prepareCheckout t1 u1 s)) = dataFile s
   \<and> trace (snd (prepareCheckout t1 u1 s)) = trace s
   \<and> (cache_agrees s \<longrightarrow>
        items_of (fst (prepareCheckout t2 u2 (snd (prepareCheckout t1 u1 s)))) =
          items_of (fst (prepareCheckout t1 u1 s))
        \<and> total_of (fst (prepareCheckout t2 u2 (snd (prepareCheckout t1 u1 s)))) =
          total_of (fst (prepareCheckout t1 u1 s))
        \<and> items_of (fst (prepareCheckout t1 u1 s)) =
            map (order_line_of (map toJsonProduct (dataFile s))) (cart s))"
  by (simp add: prepareCheckout_unfold loadProducts_frame loadProducts_agrees)

theorem prepareCheckout_repeatable_witness:
  "items_of (fst (prepareCheckout 70000 70000
       (snd (prepareCheckout 5 5 (kiosk [product 7 20 2 True] [(7, 2)]))))) =
     [\<lparr> ol_productId = 7, ol_quantity = 2, ol_name = ''Cola'', ol_price = 20, ol_amount = Fin 40 \<rparr>]
   \<and> total_of (fst (prepareCheckout 70000 70000
       (snd (prepareCheckout 5 5 (kiosk [product 7 20 2 True] [(7, 2)]))))) = Fin 40"
  using prepareCheckout_repeatable [of 5 5 "kiosk [product 7 20 2 True] [(7, 2)]" 70000 70000]
  by (simp add: cache_agrees_def kiosk_def product_def prepareCheckout_unfold loadProducts_def
      toJsonProduct_def order_line_of_def Let_def js_times_def fl_numeral)


section \<open>confirmCheckout: the index, the deduction and the vend list\<close>

text \<open>
  \<open>idToIndex\<close> sends a product id to the index of the last record that carries
  this id, so two ids never share an index, and it depends on the ids of the records
  only. The validation loop stops at the first cart line that is not covered. The
  deduction loop changes no field but \<open>shelf_life_count\<close>; with the keys of the
  cart distinct, as the keys of a \<open>Map\<close> are, it writes each cart product's stock
  once. The unit loop pushes \<open>\<lceil>qty\<rceil>\<close> entries.
\<close>

lemma Map_get_None_iff: "Map_get m k = None \<longleftrightarrow> k \<notin> fst ` set m"
  by (induction m) (auto split: if_splits)

lemma Map_get_Some_mem: "Map_get m k = Some v \<Longrightarrow> (k, v) \<in> set m"
  by (induction m) (auto split: if_splits)

lemma Map_get_distinct: "distinct (map fst m) \<Longrightarrow> (k, v) \<in> set m \<Longrightarrow> Map_get m k = Some v"
  by (induction m) (auto simp: image_iff)

lemma map_update_same:
  assumes "f y = f (xs ! i)"
  shows "map f (xs[i := y]) = map f xs"
proof (rule nth_equalityI)
  show "length (map f (xs[i := y])) = length (map f xs)" by simp
next
  fix j assume "j < length (map f (xs[i := y]))"
  then have j: "j < length xs" by simp
  note e = assms
  show "map f (xs[i := y]) ! j = map f xs ! j"
    using j e by (cases "j = i") simp_all
qed

lemma build_index_append:
  "build_index n (ps @ [x]) m =
     (case coerced (product_id x) of
        Fin k \<Rightarrow> Map_set k (n + length ps) (build_index n ps m)
      | _ \<Rightarrow> build_index n ps m)"
  by (induction ps arbitrary: n m) (simp_all split: jsnum.splits)

lemma idToIndex_snoc:
  "idToIndex (ps @ [x]) =
     (case coerced (product_id x) of
        Fin k \<Rightarrow> Map_set k (length ps) (idToIndex ps)
      | _ \<Rightarrow> idToIndex ps)"
  by (simp add: idToIndex_def build_index_append split: jsnum.splits)

lemma last_record_snoc:
  "last_record (ps @ [x]) p =
     (if coerced (product_id x) = Fin p then Some x else last_record ps p)"
  by (simp add: last_record_def)

lemma idToIndex_last_record:
  "case Map_get (idToIndex data) p of
     None \<Rightarrow> last_record data p = None
   | Some i \<Rightarrow> i < length data \<and> last_record data p = Some (data ! i)"
proof (induction data rule: rev_induct)
  case Nil
  show ?case by (simp add: idToIndex_def last_record_def)
next
  case (snoc x ps)
  show ?case
  proof (cases "coerced (product_id x) = Fin p")
    case True
    then show ?thesis
      by (simp add: idToIndex_snoc last_record_snoc Map_get_set)
  next
    case False
    then have "Map_get (idToIndex (ps @ [x])) p = Map_get (idToIndex ps) p"
      by (auto simp: idToIndex_snoc Map_get_set split: jsnum.splits)
    with snoc False show ?thesis
      by (auto simp: last_record_snoc nth_append split: option.splits)
  qed
qed

lemma idToIndex_None: "Map_get (idToIndex data) p = None \<Longrightarrow> last_record data p = None"
  using idToIndex_last_record [of data p] by simp

lemma idToIndex_Some:
  "Map_get (idToIndex data) p = Some i \<Longrightarrow> i < length data \<and> last_record data p = Some (data ! i)"
  using idToIndex_last_record [of data p] by simp

lemma idToIndex_get:
  "Map_get (idToIndex data) p = Some i \<Longrightarrow>
     i < length data \<and> coerced (product_id (data ! i)) = Fin p"
proof -
  assume "Map_get (idToIndex data) p = Some i"
  from idToIndex_Some [OF this] have i: "i < length data"
    and l: "find_first (\<lambda>r. coerced (product_id r) = Fin p) (rev data) = Some (data ! i)"
    by (simp_all add: last_record_def)
  from find_first_Some [OF l] i show ?thesis by simp
qed

lemma idToIndex_inj:
  "Map_get (idToIndex data) p = Some i \<Longrightarrow> Map_get (idToIndex data) p' = Some i \<Longrightarrow> p = p'"
  by (drule idToIndex_get)+ simp

lemma build_index_cong:
  "map product_id ps = map product_id ps' \<Longrightarrow> build_index n ps m = build_index n ps' m"
proof (induction ps arbitrary: ps' n m)
  case Nil
  then show ?case by simp
next
  case (Cons x ps)
  then obtain y qs where ps': "ps' = y # qs" and xy: "product_id x = product_id y"
    and rest: "map product_id ps = map product_id qs"
    by (cases ps') auto
  show ?case
    using Cons.IH [OF rest] by (simp add: ps' xy)
qed

lemma idToIndex_cong:
  "map product_id data' = map product_id data \<Longrightarrow> idToIndex data' = idToIndex data"
  unfolding idToIndex_def by (rule build_index_cong)

text \<open>The live stock is the stock of the record the index points to.\<close>

lemma live_stock_index:
  "live_stock data p =
     map_option (\<lambda>i. coerced (shelf_life_count (data ! i))) (Map_get (idToIndex data) p)"
proof (cases "Map_get (idToIndex data) p")
  case None
  from idToIndex_None [OF this] None show ?thesis by (simp add: live_stock_def)
next
  case (Some i)
  from idToIndex_Some [OF this] Some show ?thesis by (simp add: live_stock_def)
qed

text \<open>
  The validation loop passes a covered line and stops at a line that is not covered:
  with the not-found error when its product has no record, with the
  insufficient-stock error, carrying the stock of the last record of the product,
  when it has one.
\<close>

lemma validate_Cons:
  "validate (idToIndex data) data ((p, q) # rest) =
     (if covered data (p, q) then validate (idToIndex data) data rest
      else Some (case live_stock data p of
                   None \<Rightarrow> ProductNotFound p
                 | Some a \<Rightarrow> InsufficientStock p a q))"
  by (cases "Map_get (idToIndex data) p")
    (auto simp: live_stock_index Let_def split: jsnum.splits)

lemma validate_covered:
  "validate (idToIndex data) data c = None \<longleftrightarrow> list_all (covered data) c"
proof (induction c)
  case Nil
  show ?case by simp
next
  case (Cons e c)
  obtain p q where e: "e = (p, q)" by (cases e)
  show ?case
    unfolding e validate_Cons using Cons.IH by simp
qed

lemma validate_first_failure:
  "list_all (covered data) pre \<Longrightarrow> \<not> covered data (p, q) \<Longrightarrow>
     validate (idToIndex data) data (pre @ (p, q) # post) =
       Some (case live_stock data p of
               None \<Rightarrow> ProductNotFound p
             | Some a \<Rightarrow> InsufficientStock p a q)"
proof (induction pre)
  case Nil
  then show ?case
    unfolding append_Nil validate_Cons by simp
next
  case (Cons e pre)
  obtain p' q' where e: "e = (p', q')" by (cases e)
  from Cons.prems have c: "covered data (p', q')" and rest: "list_all (covered data) pre"
    by (simp_all add: e)
  have "validate (idToIndex data) data ((e # pre) @ (p, q) # post) =
      validate (idToIndex data) data (pre @ (p, q) # post)"
    unfolding e append_Cons validate_Cons using c by simp
  with Cons.IH [OF rest Cons.prems(2)] show ?case by simp
qed

lemma first_uncovered:
  "\<not> list_all P c \<Longrightarrow> \<exists>pre x post. c = pre @ x # post \<and> list_all P pre \<and> \<not> P x"
proof -
  assume "\<not> list_all P c"
  then have "\<exists>x \<in> set c. \<not> P x" by (simp add: list_all_iff)
  from split_list_first_prop [OF this]
  obtain pre x post where "c = pre @ x # post" "\<not> P x" "\<forall>y \<in> set pre. \<not> \<not> P y"
    by blast
  then show ?thesis by (auto simp: list_all_iff)
qed

lemma deduct_ids:
  "deduct ix c data = Some data' \<Longrightarrow>
     length data' = length data
     \<and> map product_id data' = map product_id data \<and> map product_name data' = map product_name data
     \<and> map product_price data' = map product_price data \<and> map is_active data' = map is_active data"
proof (induction c arbitrary: data)
  case Nil
  then show ?case by simp
next
  case (Cons e c)
  obtain p q where e: "e = (p, q)" by (cases e)
  from Cons.prems e obtain i where i: "Map_get ix p = Some i"
    by (cases "Map_get ix p") auto
  let ?d = "data[i := (data ! i)\<lparr> shelf_life_count :=
              JsonNumber (Math_max0 (js_minus (coerced (shelf_life_count (data ! i))) q)) \<rparr>]"
  from Cons.prems e i have "deduct ix c ?d = Some data'" by (simp add: Let_def)
  from Cons.IH [OF this] show ?case by (simp add: map_update_same)
qed

lemma deduct_stock:
  assumes "deduct ix c data = Some data'"
    and "distinct (map fst c)"
    and "\<And>p p' j. Map_get ix p = Some j \<Longrightarrow> Map_get ix p' = Some j \<Longrightarrow> p = p'"
    and "\<And>p j. Map_get ix p = Some j \<Longrightarrow> j < length data"
    and "Map_get ix p = Some i"
  shows "shelf_life_count (data' ! i) =
     (case Map_get c p of
        None \<Rightarrow> shelf_life_count (data ! i)
      | Some q \<Rightarrow> JsonNumber (Math_max0 (js_minus (coerced (shelf_life_count (data ! i))) q)))"
  using assms
proof (induction c arbitrary: data)
  case Nil
  then show ?case by simp
next
  case (Cons e c)
  obtain p0 q0 where e: "e = (p0, q0)" by (cases e)
  from Cons.prems(1) e obtain i0 where i0: "Map_get ix p0 = Some i0"
    by (cases "Map_get ix p0") auto
  let ?d = "data[i0 := (data ! i0)\<lparr> shelf_life_count :=
              JsonNumber (Math_max0 (js_minus (coerced (shelf_life_count (data ! i0))) q0)) \<rparr>]"
  from Cons.prems(1) e i0 have d: "deduct ix c ?d = Some data'" by (simp add: Let_def)
  have dist: "distinct (map fst c)" and notin: "p0 \<notin> fst ` set c"
    using Cons.prems(2) e by auto
  have len: "\<And>p j. Map_get ix p = Some j \<Longrightarrow> j < length ?d"
    using Cons.prems(4) by simp
  have IH: "shelf_life_count (data' ! i) =
     (case Map_get c p of
        None \<Rightarrow> shelf_life_count (?d ! i)
      | Some q \<Rightarrow> JsonNumber (Math_max0 (js_minus (coerced (shelf_life_count (?d ! i))) q)))"
    by (rule Cons.IH [OF d dist Cons.prems(3) len Cons.prems(5)])
  show ?case
  proof (cases "p0 = p")
    case True
    then have "i0 = i" using i0 Cons.prems(5) by simp
    moreover have "Map_get c p = None" using notin True by (simp add: Map_get_None_iff)
    moreover have "i < length data" using Cons.prems(4) Cons.prems(5) by blast
    ultimately show ?thesis using IH True e by simp
  next
    case False
    then have "i0 \<noteq> i" using i0 Cons.prems(3) Cons.prems(5) by blast
    then have "?d ! i = data ! i" by simp
    moreover have "Map_get (e # c) p = Map_get c p" using False e by simp
    ultimately show ?thesis using IH by (simp split: option.splits)
  qed
qed

text \<open>
  What a later read of the written file finds for a product id other than 0: the
  last record of the id, with its stock as \<open>JSON.stringify\<close> wrote it. (A record
  whose id is a non-finite number is written with the id \<open>null\<close>, which reads as 0.)
\<close>

lemma coerced_rewritten:
  "coerced (rewritten v) = (case v of JsonNumber n \<Rightarrow> as_written n | NotNumber n \<Rightarrow> n)"
  by (cases v rule: rewritten.cases) simp_all

lemma written_id:
  "p \<noteq> 0 \<Longrightarrow> coerced (product_id (written r)) = Fin p \<longleftrightarrow> coerced (product_id r) = Fin p"
  by (cases "product_id r" rule: rewritten.cases) (auto simp: written_def)

lemma last_record_written:
  "p \<noteq> 0 \<Longrightarrow> last_record (map written data) p = map_option written (last_record data p)"
  by (simp add: last_record_def rev_map find_first_map comp_def written_id)

lemma live_stock_written:
  "p \<noteq> 0 \<Longrightarrow>
     live_stock (map written data) p =
       map_option (\<lambda>r. coerced (rewritten (shelf_life_count r))) (last_record data p)"
  by (simp add: live_stock_def last_record_written written_def split: option.splits)

text \<open>
  The stock of a product in the file the deduction loop produces, and in the file
  as written: the stock of the last record of the product, less the cart quantity
  and not below 0 when the cart has a line for the product.
\<close>

lemma deduct_last_record:
  assumes "deduct (idToIndex data) c data = Some data'" and "distinct (map fst c)"
  shows "case last_record data p of
           None \<Rightarrow> last_record data' p = None
         | Some r \<Rightarrow>
             (\<exists>r'. last_record data' p = Some r'
                \<and> shelf_life_count r' =
                   (case Map_get c p of
                      None \<Rightarrow> shelf_life_count r
                    | Some q \<Rightarrow>
                        JsonNumber (Math_max0 (js_minus (coerced (shelf_life_count r)) q))))"
proof -
  have ix: "idToIndex data' = idToIndex data"
    using deduct_ids [OF assms(1)] by (intro idToIndex_cong) simp
  show ?thesis
  proof (cases "Map_get (idToIndex data) p")
    case None
    from idToIndex_None [OF None] idToIndex_None [of data' p] None ix show ?thesis
      by simp
  next
    case (Some i)
    have st: "shelf_life_count (data' ! i) =
       (case Map_get c p of
          None \<Rightarrow> shelf_life_count (data ! i)
        | Some q \<Rightarrow> JsonNumber (Math_max0 (js_minus (coerced (shelf_life_count (data ! i))) q)))"
    proof (rule deduct_stock [OF assms(1) assms(2) _ _ Some])
      fix p p' j
      assume "Map_get (idToIndex data) p = Some j" "Map_get (idToIndex data) p' = Some j"
      then show "p = p'" by (rule idToIndex_inj)
    next
      fix p j
      assume "Map_get (idToIndex data) p = Some j"
      then show "j < length data" by (simp add: idToIndex_get)
    qed
    from idToIndex_Some [OF Some] have l: "last_record data p = Some (data ! i)" by simp
    from Some ix have "Map_get (idToIndex data') p = Some i" by simp
    from idToIndex_Some [OF this] have l': "last_record data' p = Some (data' ! i)" by simp
    show ?thesis
      by (simp add: l l' st)
  qed
qed

lemma deduct_written_stock:
  assumes "deduct (idToIndex data) c data = Some data'" and "distinct (map fst c)"
    and "p \<noteq> 0"
  shows "live_stock (map written data') p =
     (case last_record data p of
        None \<Rightarrow> None
      | Some r \<Rightarrow>
          Some (case Map_get c p of
                  None \<Rightarrow> coerced (rewritten (shelf_life_count r))
                | Some q \<Rightarrow> as_written (Math_max0 (js_minus (coerced (shelf_life_count r)) q))))"
  using deduct_last_record [OF assms(1) assms(2), of p]
  by (auto simp: live_stock_written [OF assms(3)] coerced_rewritten split: option.splits)



lemma push_units_replicate:
  "push_units i qty pid vendItems = vendItems @ replicate (nat \<lceil>qty\<rceil> - i) pid"
proof (induction i qty pid vendItems rule: push_units.induct)
  case (1 i qty pid vendItems)
  show ?case
  proof (cases "of_nat i < qty")
    case True
    then have "of_int (int i) < qty" by simp
    then have "int i < \<lceil>qty\<rceil>" by (simp add: less_ceiling_iff)
    then have "nat \<lceil>qty\<rceil> - i = Suc (nat \<lceil>qty\<rceil> - Suc i)" by simp
    with 1 True show ?thesis
      by (subst push_units.simps) (simp add: replicate_app_Cons_same)
  next
    case False
    then have "qty \<le> of_int (int i)" by simp
    then have "\<lceil>qty\<rceil> \<le> int i" by (simp add: ceiling_le_iff)
    then have "nat \<lceil>qty\<rceil> - i = 0" by simp
    with False show ?thesis
      by (subst push_units.simps) simp
  qed
qed

lemma expand_cart_concat:
  "expand_cart c vendItems = vendItems @ concat (map (\<lambda>(p, q). replicate (nat \<lceil>q\<rceil>) p) c)"
proof (induction c arbitrary: vendItems)
  case Nil
  show ?case by simp
next
  case (Cons e c)
  obtain p q where e: "e = (p, q)" by (cases e)
  show ?case
    by (simp add: e Cons.IH push_units_replicate)
qed

lemma expand_cart_units:
  "expand_cart (map (\<lambda>(p, k). (p, of_nat k)) lines) [] =
     concat (map (\<lambda>(p, k). replicate k p) lines)"
proof (induction lines)
  case Nil
  show ?case by simp
next
  case (Cons e lines)
  obtain p k where e: "e = (p, k)" by (cases e)
  from Cons.IH show ?case
    by (simp add: e expand_cart_concat)
qed

text \<open>The two runs of \<open>confirmCheckout\<close>.\<close>

lemma confirm_deduct_covered:
  assumes "list_all (covered data) (cart s)"
  shows "\<exists>data'. deduct (idToIndex data) (cart s) data = Some data'
     \<and> confirm_deduct data s =
         (None, s\<lparr> dataFile := map written data', trace := trace s @ [EvWriteFile] \<rparr>)"
proof -
  from assms have v: "validate (idToIndex data) data (cart s) = None"
    by (simp add: validate_covered)
  have "\<forall>p \<in> fst ` set (cart s). Map_get (idToIndex data) p \<noteq> None"
  proof
    fix p assume "p \<in> fst ` set (cart s)"
    then obtain q where "(p, q) \<in> set (cart s)" by force
    with assms have "covered data (p, q)" unfolding list_all_iff by blast
    then show "Map_get (idToIndex data) p \<noteq> None"
      by (auto simp: live_stock_index split: option.splits)
  qed
  from deduct_defined [OF this] obtain data' where
    d: "deduct (idToIndex data) (cart s) data = Some data'" by blast
  with v show ?thesis
    by (simp add: confirm_deduct_def)
qed

lemma confirm_deduct_refused:
  assumes "cart s = pre @ (p, q) # post" and "list_all (covered data) pre"
    and "\<not> covered data (p, q)"
  shows "confirm_deduct data s =
     (Some (case live_stock data p of
              None \<Rightarrow> ProductNotFound p
            | Some a \<Rightarrow> InsufficientStock p a q), s)"
  using validate_first_failure [OF assms(2) assms(3), of post]
  by (simp add: confirm_deduct_def assms(1))

lemma confirm_finish_unfold:
  "confirm_finish t =
     (Confirmed (cart t) (vmcClient t = Some OPEN) (length (expand_cart (cart t) [])),
      (if vmcClient t = Some OPEN
       then t\<lparr> cart := [], cachedProducts := None, lastLoaded := 0,
               delivered := delivered t @ [expand_cart (cart t) []],
               trace := trace t @ [EvInvalidateCache, EvClearCart,
                                   EvSendToVMC (expand_cart (cart t) []) True] \<rparr>
       else t\<lparr> cart := [], cachedProducts := None, lastLoaded := 0,
               vmcClient := Some CONNECTING,
               timers := timers t @ [expand_cart (cart t) []],
               trace := trace t @ [EvInvalidateCache, EvClearCart,
                                   EvSendToVMC (expand_cart (cart t) []) False,
                                   EvNewSocket, EvNewSocket,
                                   EvSetTimeout (expand_cart (cart t) [])] \<rparr>))"
  by (simp add: confirm_finish_def Let_def sendToVMC_def connectToVMC_def
      invalidateJsonCache_def)

text \<open>
  A confirm succeeds exactly when every cart line is covered; with no other handler
  run in between it then does what its two runs do.
\<close>

lemma confirmCheckout_covered:
  assumes "list_all (covered (dataFile s)) (cart s)"
  shows "\<exists>data'. deduct (idToIndex (dataFile s)) (cart s) (dataFile s) = Some data'
     \<and> confirmCheckout s =
         confirm_finish (s\<lparr> dataFile := map written data', trace := trace s @ [EvWriteFile] \<rparr>)"
  using confirm_deduct_covered [OF assms] by (auto simp: confirmCheckout_def)

lemma confirmCheckout_Confirmed_iff:
  "(\<exists>c sent n. fst (confirmCheckout s) = Confirmed c sent n)
     \<longleftrightarrow> list_all (covered (dataFile s)) (cart s)"
proof (cases "list_all (covered (dataFile s)) (cart s)")
  case True
  from confirmCheckout_covered [OF True] True show ?thesis
    by (auto simp: confirm_finish_unfold)
next
  case False
  from first_uncovered [OF False] obtain pre p q post where
    "cart s = pre @ (p, q) # post" "list_all (covered (dataFile s)) pre"
    "\<not> covered (dataFile s) (p, q)"
    by (metis prod.collapse)
  from confirm_deduct_refused [OF this] False show ?thesis
    by (auto simp: confirmCheckout_def split: option.splits)
qed

text \<open>
  With the ids of the records distinct, the record \<open>addToCart\<close> reads (the first
  with the id) is the record \<open>confirmCheckout\<close> reads (the last with the id).
\<close>

lemma first_record_last_record:
  "distinct (map (\<lambda>r. coerced (product_id r)) data) \<Longrightarrow> first_record data p = last_record data p"
proof (induction data rule: rev_induct)
  case Nil
  show ?case by (simp add: first_record_def last_record_def)
next
  case (snoc x ps)
  from snoc.prems have d: "distinct (map (\<lambda>r. coerced (product_id r)) ps)"
    and nx: "coerced (product_id x) \<notin> (\<lambda>r. coerced (product_id r)) ` set ps"
    by simp_all
  have app: "first_record (ps @ [x]) p =
      (case first_record ps p of
         Some r \<Rightarrow> Some r
       | None \<Rightarrow> if coerced (product_id x) = Fin p then Some x else None)"
    by (simp add: first_record_def find_first_append split: option.splits)
  show ?case
  proof (cases "coerced (product_id x) = Fin p")
    case True
    with nx have "\<forall>r \<in> set ps. \<not> coerced (product_id r) = Fin p"
      by (metis image_eqI)
    then have "first_record ps p = None"
      by (simp add: first_record_def find_first_None_iff)
    with True show ?thesis
      by (simp add: app last_record_snoc)
  next
    case False
    with snoc.IH [OF d] show ?thesis
      by (simp add: app last_record_snoc split: option.splits)
  qed
qed

text \<open>
  Every handler keeps the keys of the cart distinct and other than 0 and the cart
  quantities not negative.
\<close>

lemma addToCart_with_cart_kept:
  assumes "distinct (map fst (cart s))" and "\<forall>(p, q) \<in> set (cart s). p \<noteq> 0 \<and> 0 \<le> q"
  shows "distinct (map fst (cart (snd (addToCart_with data body s))))
     \<and> (\<forall>(p, q) \<in> set (cart (snd (addToCart_with data body s))). p \<noteq> 0 \<and> 0 \<le> q)"
proof (cases "addToCart_with data body s = (InvalidRequest, s) \<or> body = None")
  case True
  with assms show ?thesis
    by (auto simp: addToCart_with_def)
next
  case False
  then obtain bd where bd: "body = Some bd" and ok: "addToCart_with data (Some bd) s \<noteq> (InvalidRequest, s)"
    by auto
  from addToCart_guard [OF ok] obtain p q where
    b: "body = add_request p q" and p: "p \<noteq> 0" and q: "0 < q"
    by (auto simp: bd)
  let ?c = "inCart_of (cart s) p"
  let ?v = "the_finite (js_add ?c q)"
  have c0: "0 \<le> ?c"
  proof (cases "Map_get (cart s) p")
    case None
    then show ?thesis by (simp add: inCart_of_def)
  next
    case (Some q')
    from Map_get_Some_mem [OF Some] assms(2) have "0 \<le> q'" by auto
    with Some show ?thesis by (simp add: inCart_of_def)
  qed
  have v0: "0 \<le> ?v"
    using fl_nonneg_cases [of "?c + q"] c0 q by (auto simp: js_add_def)
  have new: "distinct (map fst (Map_set p ?v (cart s)))
     \<and> (\<forall>(p', q') \<in> set (Map_set p ?v (cart s)). p' \<noteq> 0 \<and> 0 \<le> q')"
    using assms p v0 set_Map_set [of p ?v "cart s"] by (auto simp: distinct_Map_set)
  show ?thesis
    unfolding b addToCart_with_unfold [OF p q]
    using assms new by (simp split: option.splits jsnum.splits)
qed

lemma cart_keys_distinct_kept:
  "distinct (map fst (cart s)) \<Longrightarrow> distinct (map fst (cart (snd (addToCart body s))))"
  "distinct (map fst (cart (snd (clearCart s))))"
  "distinct (map fst (cart s)) \<Longrightarrow> distinct (map fst (cart (snd (prepareCheckout t_load t_id s))))"
  "distinct (map fst (cart s)) \<Longrightarrow> distinct (map fst (cart (snd (confirmCheckout s))))"
  "distinct (map fst (cart s)) \<Longrightarrow> distinct (map fst (cart (snd (confirm_deduct data s))))"
  "distinct (map fst (cart (snd (confirm_finish s))))"
proof -
  show "distinct (map fst (cart s)) \<Longrightarrow> distinct (map fst (cart (snd (addToCart body s))))"
    by (auto simp: addToCart_def addToCart_with_def Let_def distinct_Map_set
        split: option.splits jsnum.splits)
  show "distinct (map fst (cart (snd (clearCart s))))"
    by (simp add: clearCart_def)
  show "distinct (map fst (cart s)) \<Longrightarrow>
      distinct (map fst (cart (snd (prepareCheckout t_load t_id s))))"
    by (simp add: prepareCheckout_unfold loadProducts_frame)
  show "distinct (map fst (cart (snd (confirm_finish s))))"
    by (simp add: confirm_finish_unfold)
  have cd: "distinct (map fst (cart s)) \<Longrightarrow> distinct (map fst (cart (snd (confirm_deduct d s))))"
    for d
    by (auto simp: confirm_deduct_def Let_def split: option.splits)
  then show "distinct (map fst (cart s)) \<Longrightarrow>
      distinct (map fst (cart (snd (confirm_deduct data s))))" .
  show "distinct (map fst (cart s)) \<Longrightarrow> distinct (map fst (cart (snd (confirmCheckout s))))"
    using cd [of "dataFile s"]
    by (auto simp: confirmCheckout_def confirm_finish_unfold split: option.splits prod.splits)
qed

lemma cart_lines_kept:
  "set (cart (snd (clearCart s))) \<subseteq> set (cart s)"
  "set (cart (snd (prepareCheckout t_load t_id s))) \<subseteq> set (cart s)"
  "set (cart (snd (confirm_deduct data s))) \<subseteq> set (cart s)"
  "set (cart (snd (confirm_finish s))) \<subseteq> set (cart s)"
  "set (cart (snd (confirmCheckout s))) \<subseteq> set (cart s)"
proof -
  show "set (cart (snd (clearCart s))) \<subseteq> set (cart s)"
    by (simp add: clearCart_def)
  show "set (cart (snd (prepareCheckout t_load t_id s))) \<subseteq> set (cart s)"
    by (simp add: prepareCheckout_unfold loadProducts_frame)
  have cd: "cart (snd (confirm_deduct d s)) = cart s" for d
    by (auto simp: confirm_deduct_def Let_def split: option.splits)
  then show "set (cart (snd (confirm_deduct data s))) \<subseteq> set (cart s)"
    by simp
  show "set (cart (snd (confirm_finish s))) \<subseteq> set (cart s)"
    by (simp add: confirm_finish_unfold)
  show "set (cart (snd (confirmCheckout s))) \<subseteq> set (cart s)"
    using cd [of "dataFile s"]
    by (auto simp: confirmCheckout_def confirm_finish_unfold split: option.splits prod.splits)
qed

section \<open>confirmCheckout: insufficient stock\<close>

text \<open>
  C1, as stated, fails when a cart line that comes before the offending one names a
  product without a record in the data file: the validation loop stops at that line
  with the not-found error. The cart holds a line for product 1, whose record has
  been removed from the file, and then 5 of product 9, whose stock has dropped to
  3; the confirm answers \<open>Product 1 not found\<close> and not an insufficient-stock
  error (and changes nothing).
\<close>

theorem confirmCheckout_missing_record_first:
  "cart orphan_kiosk = [(1, 1), (9, 5)]
   \<and> live_stock (dataFile orphan_kiosk) 9 = Some (Fin 3)
   \<and> fst (confirmCheckout orphan_kiosk) = ProductNotFound 1
   \<and> (\<forall>p a q. fst (confirmCheckout orphan_kiosk) \<noteq> InsufficientStock p a q)
   \<and> snd (confirmCheckout orphan_kiosk) = orphan_kiosk"
  by (simp add: orphan_kiosk_def kiosk_def product_def live_stock_def last_record_def
      idToIndex_def confirmCheckout_def confirm_deduct_def addToCart_def addToCart_with_unfold
      first_record_def js_add_def fl_one fl_numeral inCart_of_def Let_def)

text \<open>
  C1, amended. Let a cart line \<open>(p, q)\<close> reserve more than the live stock \<open>a\<close> that
  the confirm reads for \<open>p\<close>. Then the cart has a first line \<open>(p', q')\<close> that is not
  covered (every line before it has a record with a finite stock not below its
  quantity), and the confirm answers for that line and changes nothing: the whole
  state, so every product's persisted stock and the cart, is as it was. The answer
  is the insufficient-stock error naming \<open>p'\<close>, with its stock and \<open>q'\<close>, when
  \<open>p'\<close> has a record, and the not-found error naming \<open>p'\<close> when it has none. In
  particular, when every line before \<open>(p, q)\<close> is covered, the answer is the
  insufficient-stock error naming \<open>p\<close> with \<open>a\<close> and \<open>q\<close>. This holds of the run
  from the read of the file on, whatever happened during the read, and so of
  \<open>confirmCheckout\<close>.
\<close>

theorem confirmCheckout_insufficient:
  assumes "(p, q) \<in> set (cart s)"
    and "live_stock data p = Some (Fin a)"
    and "a < q"
  shows "(\<exists>pre p' q' post.
            cart s = pre @ (p', q') # post
          \<and> list_all (covered data) pre \<and> \<not> covered data (p', q')
          \<and> confirm_deduct data s =
              (Some (case live_stock data p' of
                       None \<Rightarrow> ProductNotFound p'
                     | Some a' \<Rightarrow> InsufficientStock p' a' q'), s)
          \<and> (data = dataFile s \<longrightarrow>
               confirmCheckout s =
                 (case live_stock data p' of
                    None \<Rightarrow> ProductNotFound p'
                  | Some a' \<Rightarrow> InsufficientStock p' a' q', s)))
     \<and> (\<forall>pre post. cart s = pre @ (p, q) # post \<and> list_all (covered data) pre \<longrightarrow>
            confirm_deduct data s = (Some (InsufficientStock p (Fin a) q), s)
          \<and> (data = dataFile s \<longrightarrow> confirmCheckout s = (InsufficientStock p (Fin a) q, s)))"
proof -
  have nc: "\<not> covered data (p, q)"
    using assms(2) assms(3) by simp
  with assms(1) have "\<not> list_all (covered data) (cart s)"
    unfolding list_all_iff by blast
  from first_uncovered [OF this] obtain pre p' q' post where
    dec: "cart s = pre @ (p', q') # post" "list_all (covered data) pre"
      "\<not> covered data (p', q')"
    by (metis prod.collapse)
  note r = confirm_deduct_refused [OF dec]
  have first: "\<exists>pre p' q' post.
            cart s = pre @ (p', q') # post
          \<and> list_all (covered data) pre \<and> \<not> covered data (p', q')
          \<and> confirm_deduct data s =
              (Some (case live_stock data p' of
                       None \<Rightarrow> ProductNotFound p'
                     | Some a' \<Rightarrow> InsufficientStock p' a' q'), s)
          \<and> (data = dataFile s \<longrightarrow>
               confirmCheckout s =
                 (case live_stock data p' of
                    None \<Rightarrow> ProductNotFound p'
                  | Some a' \<Rightarrow> InsufficientStock p' a' q', s))"
  proof (intro exI conjI impI)
    show "cart s = pre @ (p', q') # post" by (rule dec(1))
    show "list_all (covered data) pre" by (rule dec(2))
    show "\<not> covered data (p', q')" by (rule dec(3))
    show "confirm_deduct data s =
              (Some (case live_stock data p' of
                       None \<Rightarrow> ProductNotFound p'
                     | Some a' \<Rightarrow> InsufficientStock p' a' q'), s)" by (rule r)
    assume "data = dataFile s"
    with r show "confirmCheckout s =
                 (case live_stock data p' of
                    None \<Rightarrow> ProductNotFound p'
                  | Some a' \<Rightarrow> InsufficientStock p' a' q', s)"
      by (simp add: confirmCheckout_def)
  qed
  have own: "confirm_deduct data s = (Some (InsufficientStock p (Fin a) q), s)
          \<and> (data = dataFile s \<longrightarrow> confirmCheckout s = (InsufficientStock p (Fin a) q, s))"
    if "cart s = pre @ (p, q) # post" "list_all (covered data) pre" for pre post
    using confirm_deduct_refused [OF that nc] assms(2)
    by (auto simp: confirmCheckout_def)
  from first own show ?thesis by blast
qed

text \<open>
  5 of product 9 reserved and the stock dropped to 3, as in the specification, and
  after it a line for product 1, which is out of stock too: the answer names
  product 9, the first of the two.
\<close>

theorem confirmCheckout_insufficient_witness:
  "confirmCheckout (kiosk [product 9 30 3 True, product 1 10 0 True] [(9, 5), (1, 1)]) =
     (InsufficientStock 9 (Fin 3) 5,
      kiosk [product 9 30 3 True, product 1 10 0 True] [(9, 5), (1, 1)])"
proof -
  let ?d = "[product 9 30 3 True, product 1 10 0 True]"
  let ?s = "kiosk ?d [(9, 5), (1, 1)]"
  have "(9, 5) \<in> set (cart ?s)"
    by (simp add: kiosk_def)
  moreover have "live_stock ?d 9 = Some (Fin 3)"
    by (simp add: live_stock_def last_record_def product_def)
  moreover have "(3::rat) < 5"
    by simp
  ultimately have "\<forall>pre post. cart ?s = pre @ (9, 5) # post \<and> list_all (covered ?d) pre \<longrightarrow>
            confirm_deduct ?d ?s = (Some (InsufficientStock 9 (Fin 3) 5), ?s)
          \<and> (?d = dataFile ?s \<longrightarrow> confirmCheckout ?s = (InsufficientStock 9 (Fin 3) 5, ?s))"
    by (rule confirmCheckout_insufficient [THEN conjunct2])
  from this [rule_format, of "[]" "[(1, 1)]"] show ?thesis
    by (simp add: kiosk_def)
qed

section \<open>confirmCheckout: deduction\<close>




section \<open>confirmCheckout: success\<close>

text \<open>
  A confirm during which no other handler runs, on a cart with distinct keys whose
  lines are all covered: it succeeds and lists the cart as it was; the persisted
  stock of every product (of id other than 0) is its prior stock less the quantity
  the cart held for it, in double arithmetic and as \<open>JSON.stringify\<close> writes it,
  which for whole numbers below \<open>2^53\<close> is the exact difference; the cart is
  empty; and the vend message handed to \<open>sendToVMC\<close> (delivered when the link is
  open, scheduled for one re-send when it is not) is the cart expanded line by
  line: a line \<open>(p, q)\<close> contributes \<open>\<lceil>q\<rceil>\<close> consecutive entries of \<open>p\<close>, that
  is \<open>q\<close> entries when the quantities are whole numbers.
\<close>

lemma confirmCheckout_uninterrupted:
  assumes "distinct (map fst (cart s))"
    and "list_all (covered (dataFile s)) (cart s)"
  shows "fst (confirmCheckout s) =
           Confirmed (cart s) (vmcClient s = Some OPEN) (length (expand_cart (cart s) []))"
    and "cart (snd (confirmCheckout s)) = []"
    and "p \<noteq> 0 \<Longrightarrow> live_stock (dataFile (snd (confirmCheckout s))) p =
           (case last_record (dataFile s) p of
              None \<Rightarrow> None
            | Some r \<Rightarrow>
                Some (case Map_get (cart s) p of
                        None \<Rightarrow> coerced (rewritten (shelf_life_count r))
                      | Some q \<Rightarrow>
                          as_written (Math_max0 (js_minus (coerced (shelf_life_count r)) q))))"
    and "(p, of_int j) \<in> set (cart s) \<Longrightarrow> p \<noteq> 0 \<Longrightarrow> 0 \<le> j \<Longrightarrow>
           live_stock (dataFile s) p = Some (Fin (of_int i)) \<Longrightarrow> i < 2 ^ 53 \<Longrightarrow>
           live_stock (dataFile (snd (confirmCheckout s))) p = Some (Fin (of_int i - of_int j))"
    and "delivered (snd (confirmCheckout s)) =
           (if vmcClient s = Some OPEN then delivered s @ [expand_cart (cart s) []]
            else delivered s)"
    and "timers (snd (confirmCheckout s)) =
           (if vmcClient s = Some OPEN then timers s
            else timers s @ [expand_cart (cart s) []])"
    and "expand_cart (cart s) [] = concat (map (\<lambda>(p, q). replicate (nat \<lceil>q\<rceil>) p) (cart s))"
    and "cart s = map (\<lambda>(p, k). (p, of_nat k)) lines \<Longrightarrow>
           expand_cart (cart s) [] = concat (map (\<lambda>(p, k). replicate k p) lines)"
proof -
  from confirmCheckout_covered [OF assms(2)] obtain data' where
    d: "deduct (idToIndex (dataFile s)) (cart s) (dataFile s) = Some data'"
    and c: "confirmCheckout s =
         confirm_finish (s\<lparr> dataFile := map written data', trace := trace s @ [EvWriteFile] \<rparr>)"
    by blast
  show "fst (confirmCheckout s) =
           Confirmed (cart s) (vmcClient s = Some OPEN) (length (expand_cart (cart s) []))"
    by (simp add: c confirm_finish_unfold)
  show "cart (snd (confirmCheckout s)) = []"
    by (simp add: c confirm_finish_unfold)
  have wr: "dataFile (snd (confirmCheckout s)) = map written data'"
    by (simp add: c confirm_finish_unfold)
  show stock: "live_stock (dataFile (snd (confirmCheckout s))) p =
           (case last_record (dataFile s) p of
              None \<Rightarrow> None
            | Some r \<Rightarrow>
                Some (case Map_get (cart s) p of
                        None \<Rightarrow> coerced (rewritten (shelf_life_count r))
                      | Some q \<Rightarrow>
                          as_written (Math_max0 (js_minus (coerced (shelf_life_count r)) q))))"
    if "p \<noteq> 0"
    unfolding wr by (rule deduct_written_stock [OF d assms(1) that])
  show "live_stock (dataFile (snd (confirmCheckout s))) p = Some (Fin (of_int i - of_int j))"
    if mem: "(p, of_int j) \<in> set (cart s)" and p: "p \<noteq> 0" and j: "0 \<le> j"
      and a: "live_stock (dataFile s) p = Some (Fin (of_int i))" and i: "i < 2 ^ 53"
  proof -
    from assms(2) mem have "covered (dataFile s) (p, of_int j)"
      unfolding list_all_iff by blast
    with a have le: "j \<le> i" by simp
    with i j have "\<bar>i - j\<bar> < 2 ^ 53" by simp
    note ex = js_minus_exact [OF this]
    have get: "Map_get (cart s) p = Some (of_int j)"
      using assms(1) mem by (rule Map_get_distinct)
    from a obtain r where "last_record (dataFile s) p = Some r"
      "coerced (shelf_life_count r) = Fin (of_int i)"
      by (auto simp: live_stock_def split: option.splits)
    with stock [OF p] get ex le show ?thesis by simp
  qed
  show "delivered (snd (confirmCheckout s)) =
           (if vmcClient s = Some OPEN then delivered s @ [expand_cart (cart s) []]
            else delivered s)"
    by (simp add: c confirm_finish_unfold)
  show "timers (snd (confirmCheckout s)) =
           (if vmcClient s = Some OPEN then timers s
            else timers s @ [expand_cart (cart s) []])"
    by (simp add: c confirm_finish_unfold)
  show "expand_cart (cart s) [] = concat (map (\<lambda>(p, q). replicate (nat \<lceil>q\<rceil>) p) (cart s))"
    by (simp add: expand_cart_concat)
  show "expand_cart (cart s) [] = concat (map (\<lambda>(p, k). replicate k p) lines)"
    if "cart s = map (\<lambda>(p, k). (p, of_nat k)) lines"
    by (simp add: that expand_cart_units)
qed

text \<open>The scenario of the specification: \<open>{7: 2}\<close> against a stock of 2.\<close>

lemma confirmCheckout_scenario:
  "fst (confirmCheckout (kiosk [product 7 20 2 True] [(7, 2)])) = Confirmed [(7, 2)] True 2
   \<and> live_stock (dataFile (snd (confirmCheckout (kiosk [product 7 20 2 True] [(7, 2)])))) 7 =
       Some (Fin 0)
   \<and> cart (snd (confirmCheckout (kiosk [product 7 20 2 True] [(7, 2)]))) = []
   \<and> delivered (snd (confirmCheckout (kiosk [product 7 20 2 True] [(7, 2)]))) = [[7, 7]]"
  by (simp add: kiosk_def product_def live_stock_def last_record_def idToIndex_def Let_def
      fl_zero written_def confirmCheckout_def confirm_deduct_def confirm_finish_def
      push_units.simps sendToVMC_def invalidateJsonCache_def)

text \<open>
  C3. The handler reads the cart for the validation and the deduction, waits for the
  file to be written, and then reads the cart again for the answer and the vend
  list. The cart holds 1 of product 7, whose stock is 3, and a request for one more
  unit of product 7 is handled during the wait: the confirm has taken 1 off the
  stock, which is 2 in the end, and it answers with 2 units, sends the vend list
  \<open>[7, 7]\<close> and clears the cart.
\<close>

theorem confirmCheckout_vends_undeducted_unit:
  "fst interleaved_confirm = Confirmed [(7, 2)] True 2
   \<and> delivered (snd interleaved_confirm) = [[7, 7]]
   \<and> live_stock (dataFile (snd interleaved_confirm)) 7 = Some (Fin 2)
   \<and> cart (snd interleaved_confirm) = []"
  by (simp add: interleaved_confirm_def kiosk_def product_def Let_def
      confirm_deduct_def idToIndex_def written_def fl_numeral fl_one
      addToCart_def addToCart_with_unfold first_record_def inCart_of_def js_add_def
      confirm_finish_unfold push_units.simps live_stock_def last_record_def)

theorem confirmCheckout_vends_undeducted_unit_witness:
  "map (\<lambda>r. coerced (shelf_life_count r)) (dataFile (snd interleaved_confirm)) = [Fin 2]
   \<and> length (concat (delivered (snd interleaved_confirm))) = 2"
  using confirmCheckout_vends_undeducted_unit
  by (simp add: interleaved_confirm_def kiosk_def product_def Let_def
      confirm_deduct_def idToIndex_def written_def fl_numeral fl_one
      addToCart_def addToCart_with_unfold first_record_def inCart_of_def js_add_def
      confirm_finish_unfold push_units.simps)

end
